theory Spec2Isabelle
  imports Complex_Main
begin

section \<open>Numbers, vectors and detector objects\<close>

text \<open>
  Values of type \<open>double\<close> and \<open>float\<close> are modelled as real numbers and rounding
  is not modelled. Where the source can leave the finite numbers (a quotient with a zero
  divisor, the square root of a negative number), the result is a value of type \<open>fval\<close>,
  which adds the two infinities and NaN of IEEE 754 to the reals. The real numbers have one
  zero; every zero divisor of the functions modelled here is a count, a sum started at
  \<open>+0\<close>, or a detector constant, and is taken to be the positive zero of IEEE 754, so
  that a non-zero dividend keeps its sign in the quotient.
\<close>

datatype fval = Fin real | PInf | NInf | NaN

fun fadd :: "fval \<Rightarrow> fval \<Rightarrow> fval" where
  "fadd (Fin a) (Fin b) = Fin (a + b)"
| "fadd NaN _ = NaN"
| "fadd _ NaN = NaN"
| "fadd PInf NInf = NaN"
| "fadd NInf PInf = NaN"
| "fadd PInf _ = PInf"
| "fadd _ PInf = PInf"
| "fadd NInf _ = NInf"
| "fadd _ NInf = NInf"

fun fneg :: "fval \<Rightarrow> fval" where
  "fneg (Fin a) = Fin (- a)"
| "fneg PInf = NInf"
| "fneg NInf = PInf"
| "fneg NaN = NaN"

definition fsub :: "fval \<Rightarrow> fval \<Rightarrow> fval" where
  "fsub a b = fadd a (fneg b)"

fun finf :: "bool \<Rightarrow> fval" where
  "finf True = PInf"
| "finf False = NInf"

fun fmul :: "fval \<Rightarrow> fval \<Rightarrow> fval" where
  "fmul (Fin a) (Fin b) = Fin (a * b)"
| "fmul NaN _ = NaN"
| "fmul _ NaN = NaN"
| "fmul (Fin a) PInf = (if a = 0 then NaN else finf (0 < a))"
| "fmul (Fin a) NInf = (if a = 0 then NaN else finf (a < 0))"
| "fmul PInf (Fin b) = (if b = 0 then NaN else finf (0 < b))"
| "fmul NInf (Fin b) = (if b = 0 then NaN else finf (b < 0))"
| "fmul PInf PInf = PInf"
| "fmul NInf NInf = PInf"
| "fmul PInf NInf = NInf"
| "fmul NInf PInf = NInf"

fun fdiv :: "fval \<Rightarrow> fval \<Rightarrow> fval" where
  "fdiv (Fin a) (Fin b) =
     (if b = 0 then (if a = 0 then NaN else finf (0 < a)) else Fin (a / b))"
| "fdiv NaN _ = NaN"
| "fdiv _ NaN = NaN"
| "fdiv (Fin a) PInf = Fin 0"
| "fdiv (Fin a) NInf = Fin 0"
| "fdiv PInf (Fin b) = finf (0 \<le> b)"
| "fdiv NInf (Fin b) = finf (b < 0)"
| "fdiv PInf PInf = NaN"
| "fdiv PInf NInf = NaN"
| "fdiv NInf PInf = NaN"
| "fdiv NInf NInf = NaN"

fun fsqrt :: "fval \<Rightarrow> fval" where
  "fsqrt (Fin a) = (if a < 0 then NaN else Fin (sqrt a))"
| "fsqrt PInf = PInf"
| "fsqrt NInf = NaN"
| "fsqrt NaN = NaN"

fun fexp :: "fval \<Rightarrow> fval" where
  "fexp (Fin a) = Fin (exp a)"
| "fexp PInf = PInf"
| "fexp NInf = Fin 0"
| "fexp NaN = NaN"

text \<open>Comparisons: every comparison with NaN is false.\<close>

fun flt :: "fval \<Rightarrow> fval \<Rightarrow> bool" where
  "flt (Fin a) (Fin b) = (a < b)"
| "flt NaN _ = False"
| "flt _ NaN = False"
| "flt _ NInf = False"
| "flt PInf _ = False"
| "flt NInf _ = True"
| "flt _ PInf = True"

definition fgt :: "fval \<Rightarrow> fval \<Rightarrow> bool" where
  "fgt a b = flt b a"

definition feq :: "fval \<Rightarrow> fval \<Rightarrow> bool" where
  "feq a b = (a \<noteq> NaN \<and> a = b)"

text \<open>\<open>geo::Point_t\<close> and \<open>geo::Vector_t\<close>: three Cartesian coordinates.\<close>

record vec3 =
  X :: real
  Y :: real
  Z :: real

definition vec3_sub :: "vec3 \<Rightarrow> vec3 \<Rightarrow> vec3" where
  "vec3_sub a b = \<lparr>X = X a - X b, Y = Y a - Y b, Z = Z a - Z b\<rparr>"

definition vec3_scale :: "real \<Rightarrow> vec3 \<Rightarrow> vec3" where
  "vec3_scale c a = \<lparr>X = c * X a, Y = c * Y a, Z = c * Z a\<rparr>"

definition Dot :: "vec3 \<Rightarrow> vec3 \<Rightarrow> real" where
  "Dot a b = X a * X b + Y a * Y b + Z a * Z b"

definition Mag2 :: "vec3 \<Rightarrow> real" where
  "Mag2 a = X a * X a + Y a * Y a + Z a * Z a"

text \<open>The accessor \<open>R()\<close>: the length of the vector.\<close>

definition vec3_R :: "vec3 \<Rightarrow> real" where
  "vec3_R a = sqrt (Mag2 a)"

text \<open>\<open>TVector2\<close>, with the difference, the scalar product and \<open>Unit()\<close> of ROOT.\<close>

type_synonym TVector2 = "real \<times> real"

definition TVector2_sub :: "TVector2 \<Rightarrow> TVector2 \<Rightarrow> TVector2" where
  "TVector2_sub a b = (fst a - fst b, snd a - snd b)"

definition TVector2_dot :: "TVector2 \<Rightarrow> TVector2 \<Rightarrow> real" where
  "TVector2_dot a b = fst a * fst b + snd a * snd b"

definition TVector2_Unit :: "TVector2 \<Rightarrow> TVector2" where
  "TVector2_Unit a =
     (let Mod2 = fst a * fst a + snd a * snd a
      in if Mod2 \<noteq> 0 then (fst a / sqrt Mod2, snd a / sqrt Mod2) else a)"

text \<open>
  \<open>geo::WireID\<close> and its \<open>asPlaneID()\<close>; \<open>recob::Hit\<close> with the accessors the
  algorithms read; \<open>recob::SpacePoint\<close>. An \<open>art::Ptr\<close> is modelled by the object it
  points to together with its \<open>key()\<close>.
\<close>

record wire_id =
  Cryostat :: nat
  TPC :: nat
  Plane :: nat
  Wire :: nat

type_synonym plane_id = "nat \<times> nat \<times> nat"

definition asPlaneID :: "wire_id \<Rightarrow> plane_id" where
  "asPlaneID w = (Cryostat w, TPC w, Plane w)"

datatype SigType = kInduction | kCollection | kMysteryType

record hit =
  hit_key :: nat
  WireID :: wire_id
  StartTick :: int
  EndTick :: int
  PeakTime :: real
  Integral :: real
  SignalType :: SigType

record spacepoint =
  sp_key :: nat
  position :: vec3

text \<open>
  What the source throws or leaves undefined: a \<open>cet::exception\<close> with its message, the
  \<open>std::out_of_range\<close> of an \<open>at()\<close>, and a read outside a vector (\<open>front()\<close> of an
  empty vector, an index beyond the size).
\<close>

datatype error = CetException string | StdOutOfRange | OutOfBounds

text \<open>
  A \<open>std::map\<close> with ordered keys is a list of pairs with strictly ascending keys.
  \<open>map_assign\<close> is \<open>m[k] = v\<close>: it inserts the key or overwrites its value.
  \<open>map_push_back\<close> is \<open>m[k].push_back(x)\<close> on a map of vectors.
\<close>

fun map_assign :: "'k::linorder \<Rightarrow> 'v \<Rightarrow> ('k \<times> 'v) list \<Rightarrow> ('k \<times> 'v) list" where
  "map_assign k v [] = [(k, v)]"
| "map_assign k v ((k', v') # m) =
     (if k < k' then (k, v) # (k', v') # m
      else if k = k' then (k, v) # m
      else (k', v') # map_assign k v m)"

fun map_push_back :: "'k::linorder \<Rightarrow> 'v \<Rightarrow> ('k \<times> 'v list) list \<Rightarrow> ('k \<times> 'v list) list" where
  "map_push_back k x [] = [(k, [x])]"
| "map_push_back k x ((k', v') # m) =
     (if k < k' then (k, [x]) # (k', v') # m
      else if k = k' then (k', v' @ [x]) # m
      else (k', v') # map_push_back k x m)"

section \<open>LArPandoraShowerAlg: projections and ordering\<close>

definition SpacePointProjection :: "spacepoint \<Rightarrow> vec3 \<Rightarrow> vec3 \<Rightarrow> real" where
  "SpacePointProjection sp vertex direction =
     (let pos = vec3_sub (position sp) vertex in Dot pos direction)"

text \<open>The overload of \<open>SpacePointPerpendicular\<close> that is given the projection.\<close>

definition SpacePointPerpendicular_proj :: "spacepoint \<Rightarrow> vec3 \<Rightarrow> vec3 \<Rightarrow> real \<Rightarrow> real" where
  "SpacePointPerpendicular_proj sp vertex direction proj =
     (let pos = vec3_sub (position sp) vertex;
          pos = vec3_sub pos (vec3_scale proj direction)
      in vec3_R pos)"

definition SpacePointPerpendicular :: "spacepoint \<Rightarrow> vec3 \<Rightarrow> vec3 \<Rightarrow> real" where
  "SpacePointPerpendicular sp vertex direction =
     (let proj = SpacePointProjection sp vertex direction
      in SpacePointPerpendicular_proj sp vertex direction proj)"

text \<open>
  \<open>OrderShowerSpacePoints(showersps, vertex, direction)\<close> replaces \<open>showersps\<close> by the
  values of the map \<open>OrderedSpacePoints\<close> in key order; the model returns the new vector.
\<close>

definition OrderShowerSpacePoints :: "spacepoint list \<Rightarrow> vec3 \<Rightarrow> vec3 \<Rightarrow> spacepoint list" where
  "OrderShowerSpacePoints showersps vertex direction =
     (let OrderedSpacePoints =
            fold (\<lambda>sp m. let len = SpacePointProjection sp vertex direction
                          in map_assign len sp m) showersps []
      in map snd OrderedSpacePoints)"

text \<open>
  The geometry and detector-property services are outside the source file; the functions of
  them that \<open>OrderShowerHits\<close> and \<open>HitCoordinates\<close> call are parameters.
\<close>

record geometry =
  WirePitch :: "plane_id \<Rightarrow> real"
  WireCoordinate :: "vec3 \<Rightarrow> plane_id \<Rightarrow> real"
  GetIncreasingWireDirection :: "plane_id \<Rightarrow> vec3"

record detector_properties =
  ConvertTicksToX :: "real \<Rightarrow> plane_id \<Rightarrow> real"

definition HitCoordinates :: "geometry \<Rightarrow> detector_properties \<Rightarrow> hit \<Rightarrow> TVector2" where
  "HitCoordinates fGeom detProp h =
     (let planeid = asPlaneID (WireID h);
          pitch = WirePitch fGeom planeid
      in (real (Wire (WireID h)) * pitch, ConvertTicksToX detProp (PeakTime h) planeid))"

text \<open>
  The loop of \<open>OrderShowerHits\<close> over the hits: it leaves at the first hit whose plane is
  not the plane of the first hit (\<open>break\<close>), and otherwise assigns the hit to its
  projection in the map.
\<close>

fun OrderShowerHits_loop ::
  "geometry \<Rightarrow> detector_properties \<Rightarrow> wire_id \<Rightarrow> TVector2 \<Rightarrow> TVector2 \<Rightarrow> hit list \<Rightarrow>
   (real \<times> hit) list \<Rightarrow> (real \<times> hit) list" where
  "OrderShowerHits_loop fGeom detProp startWireID Shower2DStartPosition Shower2DDirection []
     OrderedHits = OrderedHits"
| "OrderShowerHits_loop fGeom detProp startWireID Shower2DStartPosition Shower2DDirection (h # hits)
     OrderedHits =
     (if asPlaneID (WireID h) \<noteq> asPlaneID startWireID then OrderedHits
      else
        (let hitcoord = HitCoordinates fGeom detProp h;
             pos = TVector2_sub hitcoord Shower2DStartPosition
         in OrderShowerHits_loop fGeom detProp startWireID Shower2DStartPosition
              Shower2DDirection hits
              (map_assign (TVector2_dot pos Shower2DDirection) h OrderedHits)))"

text \<open>
  \<open>OrderShowerHits\<close> replaces \<open>hits\<close>; the model returns the new vector. \<open>hits.front()\<close>
  of an empty vector and \<open>showerHits.front()\<close> of an empty vector are outside the
  language's defined behaviour.
\<close>

definition OrderShowerHits ::
  "geometry \<Rightarrow> detector_properties \<Rightarrow> hit list \<Rightarrow> vec3 \<Rightarrow> vec3 \<Rightarrow> error + hit list" where
  "OrderShowerHits fGeom detProp hits ShowerStartPosition ShowerDirection =
     (case hits of
        [] \<Rightarrow> Inl OutOfBounds
      | startHit # _ \<Rightarrow>
        (let startWireID = WireID startHit;
             planeid = asPlaneID startWireID;
             pitch = WirePitch fGeom planeid;
             Shower2DStartPosition =
               (WireCoordinate fGeom ShowerStartPosition planeid * pitch, X ShowerStartPosition);
             PlaneDirection = GetIncreasingWireDirection fGeom planeid;
             Shower2DDirection =
               TVector2_Unit (Dot ShowerDirection PlaneDirection, X ShowerDirection);
             OrderedHits = OrderShowerHits_loop fGeom detProp startWireID Shower2DStartPosition
                             Shower2DDirection hits [];
             showerHits = map snd OrderedHits
         in case showerHits of
              [] \<Rightarrow> Inl OutOfBounds
            | frontHit # _ \<Rightarrow>
              (let backHit = last showerHits;
                   frontpos = TVector2_sub (HitCoordinates fGeom detProp frontHit)
                                Shower2DStartPosition;
                   backpos = TVector2_sub (HitCoordinates fGeom detProp backHit)
                               Shower2DStartPosition;
                   frontproj = TVector2_dot frontpos Shower2DDirection;
                   backproj = TVector2_dot backpos Shower2DDirection
               in Inr (if \<bar>backproj\<bar> < \<bar>frontproj\<bar> then rev showerHits else showerHits))))"

section \<open>LArPandoraShowerAlg: charge of a spacepoint and the charge-weighted centre\<close>

text \<open>
  \<open>art::FindManyP<recob::Hit>\<close> is the vector of the hit vectors of the spacepoints;
  its \<open>at\<close> throws outside the vector.
\<close>

definition fmh_at :: "hit list list \<Rightarrow> nat \<Rightarrow> error + hit list" where
  "fmh_at fmh k = (if k < length fmh then Inr (fmh ! k) else Inl StdOutOfRange)"

definition SpacePointCharge :: "spacepoint \<Rightarrow> hit list list \<Rightarrow> error + fval" where
  "SpacePointCharge sp fmh =
     (case fmh_at fmh (sp_key sp) of
        Inl e \<Rightarrow> Inl e
      | Inr hits \<Rightarrow>
        (let Charge = fold (\<lambda>h Charge. Charge + Integral h) hits 0
         in Inr (fdiv (Fin Charge) (Fin (real (length hits))))))"

definition SpacePointTime :: "spacepoint \<Rightarrow> hit list list \<Rightarrow> error + fval" where
  "SpacePointTime sp fmh =
     (case fmh_at fmh (sp_key sp) of
        Inl e \<Rightarrow> Inl e
      | Inr hits \<Rightarrow>
        (let Time = fold (\<lambda>h Time. Time + PeakTime h) hits 0
         in Inr (fdiv (Fin Time) (Fin (real (length hits))))))"

text \<open>
  The lifetime correction of a hit,
  \<open>std::exp((sampling_rate(clockData) * hit->PeakTime()) / (detProp.ElectronLifetime() * 1e3))\<close>;
  the sampling rate and the electron lifetime are parameters.
\<close>

definition lifetimecorrection :: "real \<Rightarrow> real \<Rightarrow> hit \<Rightarrow> fval" where
  "lifetimecorrection sampling_rate ElectronLifetime h =
     fexp (fdiv (Fin (sampling_rate * PeakTime h)) (Fin (ElectronLifetime * 1000)))"

text \<open>
  The first loop of \<open>ShowerCentre\<close> over the hits of a spacepoint, on the pair
  \<open>(charge, charge2)\<close>. With \<open>fUseCollectionOnly\<close> it leaves at the first collection hit.
\<close>

fun ShowerCentre_sum_loop ::
  "bool \<Rightarrow> real \<Rightarrow> real \<Rightarrow> hit list \<Rightarrow> fval \<times> fval \<Rightarrow> fval \<times> fval" where
  "ShowerCentre_sum_loop fUseCollectionOnly sampling_rate ElectronLifetime [] (charge, charge2) =
     (charge, charge2)"
| "ShowerCentre_sum_loop fUseCollectionOnly sampling_rate ElectronLifetime (h # hits) (charge, charge2) =
     (if fUseCollectionOnly then
        (if SignalType h = kCollection then
           (fmul (Fin (Integral h)) (lifetimecorrection sampling_rate ElectronLifetime h), charge2)
         else ShowerCentre_sum_loop fUseCollectionOnly sampling_rate ElectronLifetime hits
                (charge, charge2))
      else
        (let Q = fmul (Fin (Integral h)) (lifetimecorrection sampling_rate ElectronLifetime h)
         in ShowerCentre_sum_loop fUseCollectionOnly sampling_rate ElectronLifetime hits
              (fadd charge Q, fadd charge2 (fmul Q Q))))"

text \<open>The mean and the value \<open>rms\<close> that \<open>ShowerCentre\<close> computes from the two sums.\<close>

definition ShowerCentre_mean :: "real \<Rightarrow> real \<Rightarrow> hit list \<Rightarrow> fval" where
  "ShowerCentre_mean sampling_rate ElectronLifetime hits =
     (let (charge, charge2) =
            ShowerCentre_sum_loop False sampling_rate ElectronLifetime hits (Fin 0, Fin 0)
      in fdiv charge (Fin (real (length hits))))"

definition ShowerCentre_rms :: "real \<Rightarrow> real \<Rightarrow> hit list \<Rightarrow> fval" where
  "ShowerCentre_rms sampling_rate ElectronLifetime hits =
     (let (charge, charge2) =
            ShowerCentre_sum_loop False sampling_rate ElectronLifetime hits (Fin 0, Fin 0)
      in if length hits > 1 then
           fsqrt (fdiv (fsub charge2 (fmul charge charge)) (Fin (real (length hits - 1))))
         else Fin 1)"

text \<open>The second loop over the hits, on the pair \<open>(charge, n)\<close>.\<close>

fun ShowerCentre_trim_loop ::
  "real \<Rightarrow> real \<Rightarrow> fval \<Rightarrow> fval \<Rightarrow> hit list \<Rightarrow> fval \<times> int \<Rightarrow> fval \<times> int" where
  "ShowerCentre_trim_loop sampling_rate ElectronLifetime mean rms [] (charge, n) = (charge, n)"
| "ShowerCentre_trim_loop sampling_rate ElectronLifetime mean rms (h # hits) (charge, n) =
     (let lc = lifetimecorrection sampling_rate ElectronLifetime h
      in if fgt (fmul (Fin (Integral h)) lc) (fsub mean (fmul (Fin 2) rms)) \<and>
            flt (fmul (Fin (Integral h)) lc) (fadd mean (fmul (Fin 2) rms))
         then ShowerCentre_trim_loop sampling_rate ElectronLifetime mean rms hits
                (fadd charge (fmul (Fin (Integral h)) lc), n + 1)
         else ShowerCentre_trim_loop sampling_rate ElectronLifetime mean rms hits (charge, n))"

text \<open>
  The charge of one spacepoint as \<open>ShowerCentre\<close> adds it to \<open>chargePoint\<close> and to
  \<open>totalCharge\<close>, with the warnings logged on the way.
\<close>

definition ShowerCentre_charge ::
  "bool \<Rightarrow> real \<Rightarrow> real \<Rightarrow> hit list \<Rightarrow> fval \<times> string list" where
  "ShowerCentre_charge fUseCollectionOnly sampling_rate ElectronLifetime hits =
     (let (charge, charge2) =
            ShowerCentre_sum_loop fUseCollectionOnly sampling_rate ElectronLifetime hits
              (Fin 0, Fin 0)
      in if \<not> fUseCollectionOnly then
           (let mean = ShowerCentre_mean sampling_rate ElectronLifetime hits;
                rms = ShowerCentre_rms sampling_rate ElectronLifetime hits;
                (charge, n) = ShowerCentre_trim_loop sampling_rate ElectronLifetime mean rms hits
                                (Fin 0, 0);
                warnings = (if n = 0 then [''no points used to make the charge value. ''] else [])
            in (fdiv charge (Fin (real_of_int n)), warnings))
         else (charge, []))"

type_synonym fpoint = "fval \<times> fval \<times> fval"

fun ShowerCentre_loop ::
  "bool \<Rightarrow> real \<Rightarrow> real \<Rightarrow> hit list list \<Rightarrow> spacepoint list \<Rightarrow> fpoint \<times> fval \<times> string list \<Rightarrow>
   error + (fpoint \<times> fval \<times> string list)" where
  "ShowerCentre_loop fUseCollectionOnly sampling_rate ElectronLifetime fmh [] st = Inr st"
| "ShowerCentre_loop fUseCollectionOnly sampling_rate ElectronLifetime fmh (sp # showersps)
     ((cx, cy, cz), totalCharge, msgs) =
     (case fmh_at fmh (sp_key sp) of
        Inl e \<Rightarrow> Inl e
      | Inr hits \<Rightarrow>
        (let (charge, warnings) =
               ShowerCentre_charge fUseCollectionOnly sampling_rate ElectronLifetime hits;
             pos = position sp;
             chargePoint = (fadd cx (fmul charge (Fin (X pos))),
                            fadd cy (fmul charge (Fin (Y pos))),
                            fadd cz (fmul charge (Fin (Z pos))));
             zero_warning =
               (if feq charge (Fin 0)
                then [''Averaged charge, within 2 sigma, for a spacepoint is zero, Maybe this not a good method. '']
                else [])
         in ShowerCentre_loop fUseCollectionOnly sampling_rate ElectronLifetime fmh showersps
              (chargePoint, fadd totalCharge charge, msgs @ warnings @ zero_warning)))"

text \<open>
  \<open>ShowerCentre\<close> with the reference \<open>totalCharge\<close>: the model takes its value at the
  call and returns the centre, the final \<open>totalCharge\<close> and the warnings.
\<close>

definition ShowerCentre ::
  "bool \<Rightarrow> real \<Rightarrow> real \<Rightarrow> spacepoint list \<Rightarrow> hit list list \<Rightarrow> fval \<Rightarrow>
   error + (fpoint \<times> fval \<times> string list)" where
  "ShowerCentre fUseCollectionOnly sampling_rate ElectronLifetime showersps fmh totalCharge =
     (case ShowerCentre_loop fUseCollectionOnly sampling_rate ElectronLifetime fmh showersps
             ((Fin 0, Fin 0, Fin 0), totalCharge, []) of
        Inl e \<Rightarrow> Inl e
      | Inr ((cx, cy, cz), totalCharge, msgs) \<Rightarrow>
        (let intotalcharge = fdiv (Fin 1) totalCharge
         in Inr ((fmul cx intotalcharge, fmul cy intotalcharge, fmul cz intotalcharge),
                 totalCharge, msgs)))"

section \<open>LArPandoraShowerAlg: the gradient of the RMS along the shower\<close>

text \<open>\<open>std::numeric_limits\<close>: the two epsilons and the lowest double.\<close>

definition double_epsilon :: real where
  "double_epsilon = 1 / 2 ^ 52"

definition float_epsilon :: real where
  "float_epsilon = 1 / 2 ^ 23"

definition double_lowest :: real where
  "double_lowest = - ((2 - 1 / 2 ^ 52) * 2 ^ 1023)"

text \<open>\<open>std::round\<close>: to the nearest integer, halves away from zero.\<close>

definition std_round :: "real \<Rightarrow> int" where
  "std_round x = (if 0 \<le> x then \<lfloor>x + 1 / 2\<rfloor> else - \<lfloor>- x + 1 / 2\<rfloor>)"

definition CalculateRMS :: "real list \<Rightarrow> real" where
  "CalculateRMS perps =
     (if length perps < 2 then double_lowest
      else (let sum = fold (\<lambda>perp sum. sum + perp * perp) perps 0
            in sqrt (sum / real (length perps - 1))))"

text \<open>
  One segment of \<open>len_segment_map\<close> in the regression loop, on
  \<open>(counter, sumx, sumy, sumx2, sumxy)\<close>.
\<close>

definition RMSShowerGradient_segment ::
  "int \<times> real list \<Rightarrow> int \<times> real \<times> real \<times> real \<times> real \<Rightarrow> int \<times> real \<times> real \<times> real \<times> real" where
  "RMSShowerGradient_segment segment acc =
     (case acc of (counter, sumx, sumy, sumx2, sumxy) \<Rightarrow>
        if length (snd segment) < 2 then acc
        else (let RMS = CalculateRMS (snd segment)
              in if RMS < 0 then acc
                 else (counter + 1,
                       sumx + real_of_int (fst segment),
                       sumy + RMS,
                       sumx2 + real_of_int (fst segment * fst segment),
                       sumxy + RMS * real_of_int (fst segment))))"

text \<open>
  \<open>RMSShowerGradient\<close> orders the vector \<open>sps\<close> it is given by reference; the model
  returns the gradient with the final \<open>sps\<close>. The parameter \<open>ShowerCentre\<close> of the
  source is \<open>showerCentre\<close> here. The conversion of the rounded quotient to
  \<open>int\<close> and the product \<open>segment.first * segment.first\<close> are taken within the range
  of \<open>int\<close>.
\<close>

definition RMSShowerGradient ::
  "spacepoint list \<Rightarrow> vec3 \<Rightarrow> vec3 \<Rightarrow> nat \<Rightarrow> error + (real \<times> spacepoint list)" where
  "RMSShowerGradient sps showerCentre Direction nSegments =
     (if nSegments = 0 then
        Inl (CetException ''Unable to calculate RMS Shower Gradient with 0 segments'')
      else if length sps < 3 then Inr (0, sps)
      else
        (let sps = OrderShowerSpacePoints sps showerCentre Direction;
             minProj = SpacePointProjection (sps ! 0) showerCentre Direction;
             maxProj = SpacePointProjection (sps ! (length sps - 1)) showerCentre Direction;
             shower_length = maxProj - minProj;
             segmentsize = shower_length / real nSegments
         in if segmentsize < double_epsilon then Inr (0, sps)
            else
              (let len_segment_map =
                     fold (\<lambda>sp m.
                             let len = SpacePointProjection sp showerCentre Direction;
                                 len_perp = SpacePointPerpendicular_proj sp showerCentre Direction len;
                                 sg_len = std_round (len / segmentsize)
                             in map_push_back sg_len len_perp m) sps [];
                   (counter, sumx, sumy, sumx2, sumxy) =
                     fold RMSShowerGradient_segment len_segment_map (0, 0, 0, 0, 0);
                   denom = real_of_int counter * sumx2 - sumx * sumx
               in Inr (if \<bar>denom\<bar> < float_epsilon then 0
                       else (real_of_int counter * sumxy - sumx * sumy) / denom, sps))))"

section \<open>LArPandoraShowerAlg: hits of one snippet\<close>

record HitIdentifier =
  startTick :: int
  endTick :: int
  wire :: int
  integral :: real

definition HitIdentifier_of :: "hit \<Rightarrow> HitIdentifier" where
  "HitIdentifier_of h =
     \<lparr>startTick = StartTick h, endTick = EndTick h, wire = int (Wire (WireID h)),
      integral = Integral h\<rparr>"

text \<open>\<open>operator==\<close>: the two hits are on the same snippet.\<close>

definition HitIdentifier_eq :: "HitIdentifier \<Rightarrow> HitIdentifier \<Rightarrow> bool" where
  "HitIdentifier_eq lhs rhs =
     (startTick lhs = startTick rhs \<and> endTick lhs = endTick rhs \<and> wire lhs = wire rhs)"

text \<open>\<open>operator>\<close>: which of two hits of one snippet to pick.\<close>

definition HitIdentifier_gt :: "HitIdentifier \<Rightarrow> HitIdentifier \<Rightarrow> bool" where
  "HitIdentifier_gt lhs rhs = (integral lhs > integral rhs)"

type_synonym OrganizedHits = "nat \<times> nat list"

definition nplanes :: nat where
  "nplanes = 6"

text \<open>
  The vectors \<open>hits_org[p]\<close> and \<open>hit_idents[p]\<close> of a plane \<open>p\<close> grow together and are
  read at the same index \<open>j\<close>: the model keeps them as one list of pairs. The loop over
  \<open>j\<close> returns the updated list at the first entry on the snippet of \<open>this_ident\<close>, and
  \<open>None\<close> when \<open>found_snippet\<close> stays false.
\<close>

fun OrganizeHits_find ::
  "nat \<Rightarrow> HitIdentifier \<Rightarrow> (OrganizedHits \<times> HitIdentifier) list \<Rightarrow>
   (OrganizedHits \<times> HitIdentifier) list option" where
  "OrganizeHits_find i this_ident [] = None"
| "OrganizeHits_find i this_ident ((hit_org, hit_ident) # rest) =
     (if HitIdentifier_eq this_ident hit_ident then
        (if HitIdentifier_gt this_ident hit_ident then
           Some (((i, snd hit_org @ [fst hit_org]), this_ident) # rest)
         else Some (((fst hit_org, snd hit_org @ [i]), hit_ident) # rest))
      else map_option ((#) (hit_org, hit_ident)) (OrganizeHits_find i this_ident rest))"

text \<open>
  The body of the loop over \<open>i\<close>. The outer vectors have \<open>nplanes\<close> entries; a hit on a
  plane beyond them reads outside the vector.
\<close>

definition OrganizeHits_step ::
  "hit list \<Rightarrow> nat \<Rightarrow> (OrganizedHits \<times> HitIdentifier) list list \<Rightarrow>
   error + (OrganizedHits \<times> HitIdentifier) list list" where
  "OrganizeHits_step hits i st =
     (let this_ident = HitIdentifier_of (hits ! i);
          plane = Plane (WireID (hits ! i))
      in if length st \<le> plane then Inl OutOfBounds
         else (case OrganizeHits_find i this_ident (st ! plane) of
                 Some found \<Rightarrow> Inr (st[plane := found])
               | None \<Rightarrow> Inr (st[plane := st ! plane @ [((i, []), this_ident)]])))"

fun OrganizeHits_loop ::
  "hit list \<Rightarrow> nat list \<Rightarrow> (OrganizedHits \<times> HitIdentifier) list list \<Rightarrow>
   error + (OrganizedHits \<times> HitIdentifier) list list" where
  "OrganizeHits_loop hits [] st = Inr st"
| "OrganizeHits_loop hits (i # is) st =
     (case OrganizeHits_step hits i st of
        Inl e \<Rightarrow> Inl e
      | Inr st' \<Rightarrow> OrganizeHits_loop hits is st')"

text \<open>The groups of hit indices after the loop, plane by plane: \<open>hits_org\<close> flattened.\<close>

definition OrganizeHits_org :: "hit list \<Rightarrow> error + OrganizedHits list" where
  "OrganizeHits_org hits =
     (case OrganizeHits_loop hits [0..<length hits] (replicate nplanes []) of
        Inl e \<Rightarrow> Inl e
      | Inr st \<Rightarrow> Inr (map fst (concat st)))"

definition OrganizeHits :: "hit list \<Rightarrow> error + (hit \<rightharpoonup> hit list)" where
  "OrganizeHits hits =
     (case OrganizeHits_org hits of
        Inl e \<Rightarrow> Inl e
      | Inr hits_org \<Rightarrow>
        Inr (fold (\<lambda>hit_org ret. ret(hits ! fst hit_org \<mapsto> map ((!) hits) (snd hit_org)))
               hits_org Map.empty))"

section \<open>ShowerTrajPointdEdx: trimming a distance-ordered dE/dx sequence\<close>

text \<open>
  \<open>FinddEdxLength\<close> reads the member \<open>fdEdxCut\<close> and the vector \<open>dEdx_vec\<close>, and
  writes to the vector \<open>dEdx_val\<close> it is given by reference. The model takes the three
  and returns the final \<open>dEdx_val\<close>. The printing under \<open>fVerbose\<close> is left out.

  The loop of the source runs \<open>dEdx_iter\<close> from 2 while \<open>dEdx_iter < dEdx_vec.size()\<close>;
  \<open>continue\<close> is the recursive call at \<open>dEdx_iter + 1\<close>, \<open>break\<close> returns \<open>dEdx_val\<close>.
  The loop is entered only with \<open>dEdx_vec.size() \<ge> 4\<close>, so the unsigned differences
  \<open>dEdx_vec.size() - 1\<close> and \<open>dEdx_vec.size() - 2\<close> do not wrap.
\<close>

function FinddEdxLength_loop :: "real \<Rightarrow> bool \<Rightarrow> real list \<Rightarrow> nat \<Rightarrow> real list \<Rightarrow> real list" where
  "FinddEdxLength_loop fdEdxCut upperbound dEdx_vec dEdx_iter dEdx_val =
     (if dEdx_iter < length dEdx_vec then
        (let dEdx = dEdx_vec ! dEdx_iter in
         if upperbound then
           (if dEdx > fdEdxCut then
              FinddEdxLength_loop fdEdxCut upperbound dEdx_vec (dEdx_iter + 1) (dEdx_val @ [dEdx])
            else if dEdx_iter < length dEdx_vec - 1 \<and> dEdx_vec ! (dEdx_iter + 1) > fdEdxCut then
              FinddEdxLength_loop fdEdxCut upperbound dEdx_vec (dEdx_iter + 1) dEdx_val
            else if dEdx_iter < length dEdx_vec - 2 \<and> dEdx_vec ! (dEdx_iter + 2) > fdEdxCut then
              FinddEdxLength_loop fdEdxCut upperbound dEdx_vec (dEdx_iter + 1) dEdx_val
            else dEdx_val)
         else
           (if dEdx < fdEdxCut then
              FinddEdxLength_loop fdEdxCut upperbound dEdx_vec (dEdx_iter + 1) (dEdx_val @ [dEdx])
            else if dEdx_iter < length dEdx_vec - 1 \<and> dEdx_vec ! (dEdx_iter + 1) > fdEdxCut then
              FinddEdxLength_loop fdEdxCut upperbound dEdx_vec (dEdx_iter + 1) dEdx_val
            else if dEdx_iter < length dEdx_vec - 2 \<and> dEdx_vec ! (dEdx_iter + 2) > fdEdxCut then
              FinddEdxLength_loop fdEdxCut upperbound dEdx_vec (dEdx_iter + 1) dEdx_val
            else dEdx_val))
      else dEdx_val)"
  by pat_completeness auto
termination
  by (relation "measure (\<lambda>(fdEdxCut, upperbound, dEdx_vec, dEdx_iter, dEdx_val).
        length dEdx_vec - dEdx_iter)") auto

declare FinddEdxLength_loop.simps [simp del]

definition FinddEdxLength :: "real \<Rightarrow> real list \<Rightarrow> real list \<Rightarrow> real list" where
  "FinddEdxLength fdEdxCut dEdx_vec dEdx_val =
     (if fdEdxCut > 10 then dEdx_vec
      else if length dEdx_vec < 4 then dEdx_vec
      else
        (let upperbound_int =
               (if dEdx_vec ! 0 > fdEdxCut then 1 else 0)
             + (if dEdx_vec ! 1 > fdEdxCut then 1 else 0)
             + (if dEdx_vec ! 2 > fdEdxCut then (1::int) else 0);
             upperbound = (upperbound_int > 1)
         in FinddEdxLength_loop fdEdxCut upperbound dEdx_vec 2
              (dEdx_val @ [dEdx_vec ! 0, dEdx_vec ! 1, dEdx_vec ! 2])))"

text \<open>
  The end of \<open>CalculateElement\<close>: the map \<open>dEdx_vec_cut\<close> starts with an empty vector
  for every plane of the geometry, \<open>FinddEdxLength\<close> fills the entry of every plane of
  \<open>dEdx_vec\<close>, and \<open>dEdx_val\<close> gets one value per entry, in the order of the planes.
  \<open>TMath::Median\<close> is a parameter.
\<close>

definition CalculateElement_dEdx_vec_cut ::
  "real \<Rightarrow> int list \<Rightarrow> (int \<times> real list) list \<Rightarrow> (int \<times> real list) list" where
  "CalculateElement_dEdx_vec_cut fdEdxCut planes dEdx_vec =
     (let dEdx_vec_cut = fold (\<lambda>plane m. map_assign plane [] m) planes []
      in fold (\<lambda>dEdx_plane m.
                 map_assign (fst dEdx_plane)
                   (FinddEdxLength fdEdxCut (snd dEdx_plane)
                      (case map_of m (fst dEdx_plane) of None \<Rightarrow> [] | Some v \<Rightarrow> v)) m)
           dEdx_vec dEdx_vec_cut)"

definition CalculateElement_plane_val :: "bool \<Rightarrow> (real list \<Rightarrow> real) \<Rightarrow> real list \<Rightarrow> real" where
  "CalculateElement_plane_val fUseMedian Median dEdx_plane =
     (if dEdx_plane = [] then - 999
      else if fUseMedian then Median dEdx_plane
      else (let dEdx_mean = fold (\<lambda>dEdx dEdx_mean.
                                    if dEdx > 10 \<or> dEdx < 0 then dEdx_mean
                                    else dEdx_mean + dEdx) dEdx_plane 0
            in dEdx_mean / real (length dEdx_plane)))"

definition CalculateElement_dEdx_val ::
  "real \<Rightarrow> bool \<Rightarrow> (real list \<Rightarrow> real) \<Rightarrow> int list \<Rightarrow> (int \<times> real list) list \<Rightarrow> real list" where
  "CalculateElement_dEdx_val fdEdxCut fUseMedian Median planes dEdx_vec =
     map (\<lambda>dEdx_plane. CalculateElement_plane_val fUseMedian Median (snd dEdx_plane))
       (CalculateElement_dEdx_vec_cut fdEdxCut planes dEdx_vec)"

section \<open>Reference definitions and inputs of the examples\<close>

text \<open>
  The unbiased sample standard deviation as the specification words it: the square root of
  the sum of the squared deviations from the mean, divided by \<open>n - 1\<close>.
\<close>

definition spec_unbiased_standard_deviation :: "real list \<Rightarrow> real" where
  "spec_unbiased_standard_deviation qs =
     (let mean = sum_list qs / real (length qs)
      in sqrt (sum_list (map (\<lambda>q. (q - mean) * (q - mean)) qs) / real (length qs - 1)))"

text \<open>
  The mean as the specification words it: the mean of the values of the sequence without
  the values below 0 or above 10.
\<close>

definition spec_mean_excluding_non_physical :: "real list \<Rightarrow> real" where
  "spec_mean_excluding_non_physical dEdx_plane =
     (let physical = filter (\<lambda>dEdx. \<not> (dEdx > 10 \<or> dEdx < 0)) dEdx_plane
      in sum_list physical / real (length physical))"

text \<open>A hit with key \<open>k\<close> and integral \<open>q\<close> at peak time 0, on plane \<open>p\<close>, wire 7, ticks 1 to 2.\<close>

definition example_hit :: "nat \<Rightarrow> nat \<Rightarrow> real \<Rightarrow> hit" where
  "example_hit k p q =
     \<lparr>hit_key = k, WireID = \<lparr>Cryostat = 0, TPC = 0, Plane = p, Wire = 7\<rparr>,
      StartTick = 1, EndTick = 2, PeakTime = 0, Integral = q, SignalType = kInduction\<rparr>"

definition example_spacepoint :: "nat \<Rightarrow> real \<Rightarrow> real \<Rightarrow> real \<Rightarrow> spacepoint" where
  "example_spacepoint k x y z = \<lparr>sp_key = k, position = \<lparr>X = x, Y = y, Z = z\<rparr>\<rparr>"

text \<open>
  A geometry with wire pitch 1 whose wires are counted along z, and a detector in which a
  tick is one unit of x.
\<close>

definition example_geometry :: geometry where
  "example_geometry =
     \<lparr>WirePitch = (\<lambda>planeid. 1),
      WireCoordinate = (\<lambda>point planeid. Z point),
      GetIncreasingWireDirection = (\<lambda>planeid. \<lparr>X = 0, Y = 0, Z = 1\<rparr>)\<rparr>"

definition example_detector_properties :: detector_properties where
  "example_detector_properties = \<lparr>ConvertTicksToX = (\<lambda>ticks planeid. ticks)\<rparr>"

text \<open>
  The identity key of a hit as the specification words it: plane, wire, start tick and
  end tick.
\<close>

definition identity_key :: "hit \<Rightarrow> nat \<times> nat \<times> int \<times> int" where
  "identity_key h = (Plane (WireID h), Wire (WireID h), StartTick h, EndTick h)"

text \<open>
  The three fields of a \<open>HitIdentifier\<close> that \<open>operator==\<close> compares.
\<close>

definition idkey :: "HitIdentifier \<Rightarrow> int \<times> int \<times> int" where
  "idkey i = (startTick i, endTick i, wire i)"

text \<open>
  What the specification asks of a group of hit indices, a primary \<open>fst g\<close> with its
  secondaries \<open>snd g\<close>, among the first \<open>n\<close> hits: the members of the group are, without
  repetition, the indices of all hits with the identity key of the primary, and every
  secondary has a smaller integral than the primary, or the same integral and a later
  position.
\<close>

definition group_ok :: "hit list \<Rightarrow> nat \<Rightarrow> OrganizedHits \<Rightarrow> bool" where
  "group_ok hits n g \<longleftrightarrow>
     fst g < n \<and> distinct (fst g # snd g) \<and>
     set (fst g # snd g) =
       set (filter (\<lambda>k. identity_key (hits ! k) = identity_key (hits ! fst g)) [0..<n]) \<and>
     (\<forall>k\<in>set (snd g). Integral (hits ! k) < Integral (hits ! fst g) \<or>
        (Integral (hits ! k) = Integral (hits ! fst g) \<and> fst g < k))"

text \<open>
  The invariant of the loop of \<open>OrganizeHits\<close> after \<open>n\<close> hits. On every plane: each
  entry holds the identifier of its primary, its primary is on the plane and its group is
  as specified; no two entries are on the same snippet; every hit of the plane has an
  entry on its snippet.
\<close>

definition plane_inv ::
  "hit list \<Rightarrow> nat \<Rightarrow> nat \<Rightarrow> (OrganizedHits \<times> HitIdentifier) list \<Rightarrow> bool" where
  "plane_inv hits n p slots \<longleftrightarrow>
     (\<forall>slot\<in>set slots. snd slot = HitIdentifier_of (hits ! fst (fst slot)) \<and>
        Plane (WireID (hits ! fst (fst slot))) = p \<and> group_ok hits n (fst slot)) \<and>
     distinct (map (\<lambda>slot. idkey (snd slot)) slots) \<and>
     (\<forall>k<n. Plane (WireID (hits ! k)) = p \<longrightarrow>
        idkey (HitIdentifier_of (hits ! k)) \<in> (\<lambda>slot. idkey (snd slot)) ` set slots)"

definition OrganizeHits_inv ::
  "hit list \<Rightarrow> nat \<Rightarrow> (OrganizedHits \<times> HitIdentifier) list list \<Rightarrow> bool" where
  "OrganizeHits_inv hits n st \<longleftrightarrow>
     length st = nplanes \<and> (\<forall>p<nplanes. plane_inv hits n p (st ! p))"

section \<open>Ordered maps\<close>

lemma map_assign_keys: "fst ` set (map_assign k v m) = insert k (fst ` set m)"
proof (induction m)
  case Nil
  show ?case by simp
next
  case (Cons a m)
  obtain k' v' where a: "a = (k', v')" by (cases a)
  show ?case using Cons.IH by (simp add: a insert_commute)
qed

lemma map_assign_values: "snd ` set (map_assign k v m) \<subseteq> insert v (snd ` set m)"
proof (induction m)
  case Nil
  show ?case by simp
next
  case (Cons a m)
  obtain k' v' where a: "a = (k', v')" by (cases a)
  show ?case using Cons.IH by (simp add: a) blast
qed

lemma map_assign_keyed:
  "\<forall>e\<in>set m. fst e = f (snd e) \<Longrightarrow> k = f v \<Longrightarrow> \<forall>e\<in>set (map_assign k v m). fst e = f (snd e)"
proof (induction m)
  case Nil
  then show ?case by simp
next
  case (Cons a m)
  obtain k' v' where a: "a = (k', v')" by (cases a)
  show ?case using Cons by (simp add: a)
qed

lemma map_assign_sorted:
  "sorted_wrt (<) (map fst m) \<Longrightarrow> sorted_wrt (<) (map fst (map_assign k v m))"
proof (induction m)
  case Nil
  then show ?case by simp
next
  case (Cons a m)
  obtain k' v' where a: "a = (k', v')" by (cases a)
  from Cons.prems have tail: "sorted_wrt (<) (map fst m)" and above: "\<forall>x\<in>fst ` set m. k' < x"
    by (simp_all add: a)
  show ?case
  proof (cases "k < k'")
    case True
    with Cons.prems above show ?thesis by (auto simp: a)
  next
    case False
    show ?thesis
    proof (cases "k = k'")
      case True
      with Cons.prems show ?thesis by (simp add: a)
    next
      case ne: False
      with False have "k' < k" by simp
      with above have "\<forall>x\<in>fst ` set (map_assign k v m). k' < x"
        unfolding map_assign_keys by simp
      with Cons.IH [OF tail] False ne show ?thesis by (simp add: a)
    qed
  qed
qed

lemma map_assign_not_Nil: "map_assign k v m \<noteq> []"
  by (cases m) (auto split: if_splits)

lemma fold_map_assign:
  assumes "sorted_wrt (<) (map fst m)" and "\<forall>e\<in>set m. fst e = f (snd e)"
  shows "sorted_wrt (<) (map fst (fold (\<lambda>x m. map_assign (f x) x m) xs m)) \<and>
         fst ` set (fold (\<lambda>x m. map_assign (f x) x m) xs m) = f ` set xs \<union> fst ` set m \<and>
         snd ` set (fold (\<lambda>x m. map_assign (f x) x m) xs m) \<subseteq> set xs \<union> snd ` set m \<and>
         (\<forall>e\<in>set (fold (\<lambda>x m. map_assign (f x) x m) xs m). fst e = f (snd e))"
  using assms
proof (induction xs arbitrary: m)
  case Nil
  then show ?case by simp
next
  case (Cons x xs)
  have s: "sorted_wrt (<) (map fst (map_assign (f x) x m))"
    using Cons.prems(1) by (rule map_assign_sorted)
  have k: "\<forall>e\<in>set (map_assign (f x) x m). fst e = f (snd e)"
    using Cons.prems(2) by (rule map_assign_keyed) simp
  from Cons.IH [OF s k]
  have IH1: "sorted_wrt (<) (map fst (fold (\<lambda>x m. map_assign (f x) x m) xs (map_assign (f x) x m)))"
    and IH2: "fst ` set (fold (\<lambda>x m. map_assign (f x) x m) xs (map_assign (f x) x m))
                = f ` set xs \<union> fst ` set (map_assign (f x) x m)"
    and IH3: "snd ` set (fold (\<lambda>x m. map_assign (f x) x m) xs (map_assign (f x) x m))
                \<subseteq> set xs \<union> snd ` set (map_assign (f x) x m)"
    and IH4: "\<forall>e\<in>set (fold (\<lambda>x m. map_assign (f x) x m) xs (map_assign (f x) x m)).
                fst e = f (snd e)"
    by blast+
  have 1: "sorted_wrt (<) (map fst (fold (\<lambda>x m. map_assign (f x) x m) (x # xs) m))"
    using IH1 by simp
  have 2: "fst ` set (fold (\<lambda>x m. map_assign (f x) x m) (x # xs) m) = f ` set (x # xs) \<union> fst ` set m"
    using IH2 by (simp add: map_assign_keys)
  from IH3 map_assign_values [of "f x" x m]
  have "snd ` set (fold (\<lambda>x m. map_assign (f x) x m) xs (map_assign (f x) x m))
          \<subseteq> insert x (set xs \<union> snd ` set m)"
    by blast
  then have 3: "snd ` set (fold (\<lambda>x m. map_assign (f x) x m) (x # xs) m)
                  \<subseteq> set (x # xs) \<union> snd ` set m"
    by simp
  have 4: "\<forall>e\<in>set (fold (\<lambda>x m. map_assign (f x) x m) (x # xs) m). fst e = f (snd e)"
    using IH4 by simp
  from 1 2 3 4 show ?case by blast
qed


lemmas fold_map_assign_Nil = fold_map_assign [of "[]", simplified]

section \<open>Ordering spacepoints by their projection\<close>

text \<open>
  C8. The projections of the spacepoints that \<open>OrderShowerSpacePoints\<close> returns are
  strictly ascending, so no two returned spacepoints have the same projection; they are
  the projections of the input, each once; every returned spacepoint is one of the input.
  The number of returned spacepoints is the number of distinct projections, and when two
  or more input elements have the same projection the output is shorter than the input.
\<close>

theorem OrderShowerSpacePoints_one_per_projection:
  "sorted_wrt (<) (map (\<lambda>sp. SpacePointProjection sp vertex direction)
                     (OrderShowerSpacePoints showersps vertex direction)) \<and>
   set (map (\<lambda>sp. SpacePointProjection sp vertex direction)
          (OrderShowerSpacePoints showersps vertex direction))
     = (\<lambda>sp. SpacePointProjection sp vertex direction) ` set showersps \<and>
   set (OrderShowerSpacePoints showersps vertex direction) \<subseteq> set showersps \<and>
   length (OrderShowerSpacePoints showersps vertex direction)
     = card ((\<lambda>sp. SpacePointProjection sp vertex direction) ` set showersps) \<and>
   (\<not> distinct (map (\<lambda>sp. SpacePointProjection sp vertex direction) showersps) \<longrightarrow>
      length (OrderShowerSpacePoints showersps vertex direction) < length showersps)"
proof -
  define proj where "proj = (\<lambda>sp. SpacePointProjection sp vertex direction)"
  define M where "M = fold (\<lambda>sp m. map_assign (proj sp) sp m) showersps []"
  have out: "OrderShowerSpacePoints showersps vertex direction = map snd M"
    by (simp add: OrderShowerSpacePoints_def M_def proj_def)
  have "sorted_wrt (<) (map fst M) \<and> fst ` set M = proj ` set showersps \<and>
        snd ` set M \<subseteq> set showersps \<and> (\<forall>e\<in>set M. fst e = proj (snd e))"
    unfolding M_def by (rule fold_map_assign_Nil)
  then have sorted: "sorted_wrt (<) (map fst M)"
    and keys: "fst ` set M = proj ` set showersps"
    and vals: "snd ` set M \<subseteq> set showersps"
    and keyed: "\<forall>e\<in>set M. fst e = proj (snd e)"
    by blast+
  from keyed have projs: "map proj (map snd M) = map fst M"
    by simp
  from sorted have "distinct (map fst M)"
    by (simp add: strict_sorted_iff)
  then have "card (set (map fst M)) = length (map fst M)"
    by (rule distinct_card)
  then have len: "length (map snd M) = card (proj ` set showersps)"
    by (simp add: keys)
  have short: "length (map snd M) < length showersps"
    if "\<not> distinct (map proj showersps)"
  proof -
    have "card (set (map proj showersps)) \<le> length (map proj showersps)"
      by (rule card_length)
    moreover have "card (set (map proj showersps)) \<noteq> length (map proj showersps)"
      using that card_distinct by blast
    ultimately show ?thesis using len by simp
  qed
  have 1: "sorted_wrt (<) (map proj (map snd M))"
    using sorted by (simp only: projs)
  have 2: "set (map proj (map snd M)) = proj ` set showersps"
    using keys by (simp only: projs) simp
  have 3: "set (map snd M) \<subseteq> set showersps"
    using vals by simp
  show ?thesis
    unfolding out proj_def [symmetric]
    using 1 2 3 len short by blast
qed


text \<open>
  Three spacepoints with the projections 1, 1 and 0: the second spacepoint replaces the
  first in the map, and two spacepoints are returned.
\<close>

theorem OrderShowerSpacePoints_one_per_projection_witness:
  "\<not> distinct (map (\<lambda>sp. SpacePointProjection sp \<lparr>X = 0, Y = 0, Z = 0\<rparr> \<lparr>X = 1, Y = 0, Z = 0\<rparr>)
        [example_spacepoint 0 1 0 0, example_spacepoint 1 1 5 0, example_spacepoint 2 0 0 0]) \<and>
   OrderShowerSpacePoints
     [example_spacepoint 0 1 0 0, example_spacepoint 1 1 5 0, example_spacepoint 2 0 0 0]
     \<lparr>X = 0, Y = 0, Z = 0\<rparr> \<lparr>X = 1, Y = 0, Z = 0\<rparr>
     = [example_spacepoint 2 0 0 0, example_spacepoint 1 1 5 0] \<and>
   length (OrderShowerSpacePoints
     [example_spacepoint 0 1 0 0, example_spacepoint 1 1 5 0, example_spacepoint 2 0 0 0]
     \<lparr>X = 0, Y = 0, Z = 0\<rparr> \<lparr>X = 1, Y = 0, Z = 0\<rparr>) < 3"
  using OrderShowerSpacePoints_one_per_projection [of "\<lparr>X = 0, Y = 0, Z = 0\<rparr>" "\<lparr>X = 1, Y = 0, Z = 0\<rparr>"
      "[example_spacepoint 0 1 0 0, example_spacepoint 1 1 5 0, example_spacepoint 2 0 0 0]"]
  by (simp add: OrderShowerSpacePoints_def SpacePointProjection_def example_spacepoint_def
      vec3_sub_def Dot_def)

section \<open>Ordering hits of one plane\<close>

lemma OrderShowerHits_loop_takeWhile:
  "OrderShowerHits_loop fGeom detProp w s d hits acc =
   OrderShowerHits_loop fGeom detProp w s d
     (takeWhile (\<lambda>h. asPlaneID (WireID h) = asPlaneID w) hits) acc"
  by (induction hits arbitrary: acc) (simp_all add: Let_def)

lemma OrderShowerHits_loop_values:
  "snd ` set (OrderShowerHits_loop fGeom detProp w s d hits acc)
     \<subseteq> snd ` set acc \<union> set (takeWhile (\<lambda>h. asPlaneID (WireID h) = asPlaneID w) hits)"
proof (induction hits arbitrary: acc)
  case Nil
  show ?case by simp
next
  case (Cons h hits)
  show ?case
  proof (cases "asPlaneID (WireID h) = asPlaneID w")
    case False
    then show ?thesis by simp
  next
    case True
    define acc' where "acc' = map_assign
      (TVector2_dot (TVector2_sub (HitCoordinates fGeom detProp h) s) d) h acc"
    have "snd ` set acc' \<subseteq> insert h (snd ` set acc)"
      unfolding acc'_def by (rule map_assign_values)
    with Cons.IH [of acc'] True show ?thesis
      by (simp add: Let_def acc'_def [symmetric]) blast
  qed
qed

lemma OrderShowerHits_loop_not_Nil:
  "acc \<noteq> [] \<Longrightarrow> OrderShowerHits_loop fGeom detProp w s d hits acc \<noteq> []"
  by (induction hits arbitrary: acc) (simp_all add: Let_def map_assign_not_Nil)

lemma OrderShowerHits_out:
  "\<exists>out. OrderShowerHits fGeom detProp (startHit # hits) start dir = Inr out \<and> out \<noteq> [] \<and>
     set out = snd ` set (OrderShowerHits_loop fGeom detProp (WireID startHit)
       (WireCoordinate fGeom start (asPlaneID (WireID startHit)) *
          WirePitch fGeom (asPlaneID (WireID startHit)), X start)
       (TVector2_Unit (Dot dir (GetIncreasingWireDirection fGeom (asPlaneID (WireID startHit))),
          X dir))
       (startHit # hits) [])"
proof -
  define M where "M = OrderShowerHits_loop fGeom detProp (WireID startHit)
       (WireCoordinate fGeom start (asPlaneID (WireID startHit)) *
          WirePitch fGeom (asPlaneID (WireID startHit)), X start)
       (TVector2_Unit (Dot dir (GetIncreasingWireDirection fGeom (asPlaneID (WireID startHit))),
          X dir))
       (startHit # hits) []"
  have "M \<noteq> []"
    unfolding M_def by (simp add: Let_def OrderShowerHits_loop_not_Nil map_assign_not_Nil)
  then obtain e es where M: "M = e # es"
    by (cases M) auto
  show ?thesis
    unfolding M_def [symmetric]
    by (simp add: OrderShowerHits_def Let_def M_def [symmetric] M del: OrderShowerHits_loop.simps)
qed

text \<open>
  C7. For a hit list that is not empty, \<open>OrderShowerHits\<close> returns a list of hits all
  on the plane of the first hit; every returned hit is from the leading run of hits on
  that plane, and the result is the result for that leading run alone: the hits from the
  first hit on another plane on are dropped.
\<close>

theorem OrderShowerHits_same_plane:
  assumes "hits \<noteq> []"
  shows "\<exists>out. OrderShowerHits fGeom detProp hits ShowerStartPosition ShowerDirection = Inr out \<and>
           (\<forall>h\<in>set out. asPlaneID (WireID h) = asPlaneID (WireID (hd hits))) \<and>
           set out \<subseteq> set (takeWhile
              (\<lambda>h. asPlaneID (WireID h) = asPlaneID (WireID (hd hits))) hits) \<and>
           OrderShowerHits fGeom detProp
             (takeWhile (\<lambda>h. asPlaneID (WireID h) = asPlaneID (WireID (hd hits))) hits)
             ShowerStartPosition ShowerDirection = Inr out"
proof -
  from assms obtain startHit rest where hits: "hits = startHit # rest"
    by (cases hits) auto
  define P :: "hit \<Rightarrow> bool" where "P = (\<lambda>h. asPlaneID (WireID h) = asPlaneID (WireID startHit))"
  obtain out where out: "OrderShowerHits fGeom detProp (startHit # rest) ShowerStartPosition
      ShowerDirection = Inr out"
    and set_out: "set out = snd ` set (OrderShowerHits_loop fGeom detProp (WireID startHit)
       (WireCoordinate fGeom ShowerStartPosition (asPlaneID (WireID startHit)) *
          WirePitch fGeom (asPlaneID (WireID startHit)), X ShowerStartPosition)
       (TVector2_Unit (Dot ShowerDirection
          (GetIncreasingWireDirection fGeom (asPlaneID (WireID startHit))), X ShowerDirection))
       (startHit # rest) [])"
    using OrderShowerHits_out by blast
  have sub: "set out \<subseteq> set (takeWhile P (startHit # rest))"
    unfolding set_out P_def
    using OrderShowerHits_loop_values [of fGeom detProp "WireID startHit" _ _ "startHit # rest" "[]"]
    by simp
  have plane: "\<forall>h\<in>set out. P h"
    using sub set_takeWhileD by fastforce
  have tw: "takeWhile P (startHit # rest) = startHit # takeWhile P rest"
    by (simp add: P_def)
  have L: "OrderShowerHits_loop fGeom detProp (WireID startHit) s d (startHit # takeWhile P rest) []
           = OrderShowerHits_loop fGeom detProp (WireID startHit) s d (startHit # rest) []" for s d
    using OrderShowerHits_loop_takeWhile [of fGeom detProp "WireID startHit" s d "startHit # rest" "[]"]
    by (simp add: P_def del: OrderShowerHits_loop.simps)
  have same: "OrderShowerHits fGeom detProp (takeWhile P (startHit # rest)) ShowerStartPosition
      ShowerDirection = OrderShowerHits fGeom detProp (startHit # rest) ShowerStartPosition
      ShowerDirection"
    unfolding tw by (simp only: OrderShowerHits_def list.case Let_def L)
  show ?thesis
    using out sub plane same unfolding hits P_def by simp
qed


text \<open>
  Three hits on the planes 0, 1 and 0: the loop leaves at the second hit and the result is
  the first hit alone.
\<close>

theorem OrderShowerHits_same_plane_witness:
  "OrderShowerHits example_geometry example_detector_properties
     [example_hit 0 0 5, example_hit 1 1 6, example_hit 2 0 7]
     \<lparr>X = 0, Y = 0, Z = 0\<rparr> \<lparr>X = 0, Y = 0, Z = 1\<rparr> = Inr [example_hit 0 0 5] \<and>
   takeWhile (\<lambda>h. asPlaneID (WireID h) = asPlaneID (WireID (example_hit 0 0 5)))
     [example_hit 0 0 5, example_hit 1 1 6, example_hit 2 0 7] = [example_hit 0 0 5]"
  using OrderShowerHits_same_plane [of "[example_hit 0 0 5, example_hit 1 1 6, example_hit 2 0 7]"
      example_geometry example_detector_properties
      "\<lparr>X = 0, Y = 0, Z = 0\<rparr>" "\<lparr>X = 0, Y = 0, Z = 1\<rparr>"]
  by (simp add: OrderShowerHits_def HitCoordinates_def TVector2_sub_def TVector2_dot_def
      TVector2_Unit_def asPlaneID_def example_hit_def example_geometry_def
      example_detector_properties_def Dot_def)

section \<open>Groups of hits on one snippet\<close>

lemma HitIdentifier_eq_idkey: "HitIdentifier_eq a b \<longleftrightarrow> idkey a = idkey b"
  by (auto simp: HitIdentifier_eq_def idkey_def)

lemma identity_key_eq:
  "identity_key a = identity_key b \<longleftrightarrow>
     Plane (WireID a) = Plane (WireID b) \<and>
     idkey (HitIdentifier_of a) = idkey (HitIdentifier_of b)"
  by (auto simp: identity_key_def idkey_def HitIdentifier_of_def)

lemma group_ok_Suc_other:
  assumes "group_ok hits n g"
    and "identity_key (hits ! n) \<noteq> identity_key (hits ! fst g)"
  shows "group_ok hits (Suc n) g"
  using assms by (auto simp: group_ok_def)

lemma group_ok_new:
  assumes "\<forall>k<n. identity_key (hits ! k) \<noteq> identity_key (hits ! n)"
  shows "group_ok hits (Suc n) (n, [])"
  using assms by (auto simp: group_ok_def)

lemma group_ok_replace:
  assumes "group_ok hits n (f, s)"
    and "identity_key (hits ! n) = identity_key (hits ! f)"
    and "Integral (hits ! n) > Integral (hits ! f)"
  shows "group_ok hits (Suc n) (n, s @ [f])"
proof -
  from assms(1) have f: "f < n" and d: "distinct (f # s)"
    and m: "set (f # s) = set (filter (\<lambda>k. identity_key (hits ! k) = identity_key (hits ! f)) [0..<n])"
    and o: "\<forall>k\<in>set s. Integral (hits ! k) < Integral (hits ! f) \<or>
        (Integral (hits ! k) = Integral (hits ! f) \<and> f < k)"
    by (simp_all add: group_ok_def)
  from m have below: "\<forall>k\<in>set (f # s). k < n" by auto
  have 1: "distinct (n # s @ [f])"
    using d below by auto
  have 2: "set (n # s @ [f]) =
      set (filter (\<lambda>k. identity_key (hits ! k) = identity_key (hits ! n)) [0..<Suc n])"
    using m assms(2) by auto
  have 3: "\<forall>k\<in>set (s @ [f]). Integral (hits ! k) < Integral (hits ! n) \<or>
        (Integral (hits ! k) = Integral (hits ! n) \<and> n < k)"
    using o assms(3) by auto
  from 1 2 3 show ?thesis by (simp add: group_ok_def)
qed

lemma group_ok_append:
  assumes "group_ok hits n (f, s)"
    and "identity_key (hits ! n) = identity_key (hits ! f)"
    and "\<not> Integral (hits ! n) > Integral (hits ! f)"
  shows "group_ok hits (Suc n) (f, s @ [n])"
proof -
  from assms(1) have f: "f < n" and d: "distinct (f # s)"
    and m: "set (f # s) = set (filter (\<lambda>k. identity_key (hits ! k) = identity_key (hits ! f)) [0..<n])"
    and o: "\<forall>k\<in>set s. Integral (hits ! k) < Integral (hits ! f) \<or>
        (Integral (hits ! k) = Integral (hits ! f) \<and> f < k)"
    by (simp_all add: group_ok_def)
  from m have below: "\<forall>k\<in>set (f # s). k < n" by auto
  have 1: "distinct (f # s @ [n])"
    using d below by auto
  have 2: "set (f # s @ [n]) =
      set (filter (\<lambda>k. identity_key (hits ! k) = identity_key (hits ! f)) [0..<Suc n])"
    using m assms(2) by auto
  have 3: "\<forall>k\<in>set (s @ [n]). Integral (hits ! k) < Integral (hits ! f) \<or>
        (Integral (hits ! k) = Integral (hits ! f) \<and> f < k)"
    using o assms(3) f by auto
  from f 1 2 3 show ?thesis by (simp add: group_ok_def)
qed

lemma OrganizeHits_find_None:
  "OrganizeHits_find i this slots = None \<longleftrightarrow>
     (\<forall>slot\<in>set slots. idkey this \<noteq> idkey (snd slot))"
  by (induction slots) (auto simp: HitIdentifier_eq_idkey split: if_splits)

lemma OrganizeHits_find_Some:
  "OrganizeHits_find i this slots = Some found \<Longrightarrow>
   \<exists>pre f s ident post. slots = pre @ ((f, s), ident) # post \<and>
     (\<forall>slot\<in>set pre. idkey this \<noteq> idkey (snd slot)) \<and> idkey this = idkey ident \<and>
     found = pre @ (if HitIdentifier_gt this ident then ((i, s @ [f]), this)
                    else ((f, s @ [i]), ident)) # post"
proof (induction slots arbitrary: found)
  case Nil
  then show ?case by simp
next
  case (Cons a slots)
  obtain f s ident where a: "a = ((f, s), ident)"
    by (cases a) auto
  show ?case
  proof (cases "HitIdentifier_eq this ident")
    case True
    with Cons.prems have "found = (if HitIdentifier_gt this ident then ((i, s @ [f]), this)
                    else ((f, s @ [i]), ident)) # slots"
      by (auto simp: a)
    with True show ?thesis
      unfolding a HitIdentifier_eq_idkey by (intro exI [of _ "[]"] exI) auto
  next
    case False
    with Cons.prems obtain found' where f': "OrganizeHits_find i this slots = Some found'"
      and found: "found = a # found'"
      by (auto simp: a)
    from Cons.IH [OF f'] obtain pre f2 s2 ident2 post where
      "slots = pre @ ((f2, s2), ident2) # post"
      "\<forall>slot\<in>set pre. idkey this \<noteq> idkey (snd slot)" "idkey this = idkey ident2"
      "found' = pre @ (if HitIdentifier_gt this ident2 then ((i, s2 @ [f2]), this)
                    else ((f2, s2 @ [i]), ident2)) # post"
      by blast
    with False show ?thesis
      unfolding found a HitIdentifier_eq_idkey
      by (intro exI [of _ "((f, s), ident) # pre"] exI [of _ f2] exI [of _ s2]
          exI [of _ ident2] exI [of _ post]) auto
  qed
qed


lemma plane_invI:
  assumes "\<forall>slot\<in>set slots. snd slot = HitIdentifier_of (hits ! fst (fst slot)) \<and>
        Plane (WireID (hits ! fst (fst slot))) = p \<and> group_ok hits n (fst slot)"
    and "distinct (map (\<lambda>slot. idkey (snd slot)) slots)"
    and "\<forall>k<n. Plane (WireID (hits ! k)) = p \<longrightarrow>
        idkey (HitIdentifier_of (hits ! k)) \<in> (\<lambda>slot. idkey (snd slot)) ` set slots"
  shows "plane_inv hits n p slots"
  unfolding plane_inv_def using assms by blast

lemma plane_inv_slot:
  assumes "plane_inv hits n p slots" and "slot \<in> set slots"
  shows "snd slot = HitIdentifier_of (hits ! fst (fst slot))"
    and "Plane (WireID (hits ! fst (fst slot))) = p"
    and "group_ok hits n (fst slot)"
  using assms unfolding plane_inv_def by blast+

lemma plane_inv_distinct:
  assumes "plane_inv hits n p slots"
  shows "distinct (map (\<lambda>slot. idkey (snd slot)) slots)"
  using assms unfolding plane_inv_def by blast

lemma plane_inv_cover:
  assumes "plane_inv hits n p slots" and "k < n" and "Plane (WireID (hits ! k)) = p"
  shows "idkey (HitIdentifier_of (hits ! k)) \<in> (\<lambda>slot. idkey (snd slot)) ` set slots"
  using assms unfolding plane_inv_def by blast

lemma plane_inv_other:
  assumes "plane_inv hits n q slots" and "Plane (WireID (hits ! n)) \<noteq> q"
  shows "plane_inv hits (Suc n) q slots"
proof (rule plane_invI)
  show "\<forall>slot\<in>set slots. snd slot = HitIdentifier_of (hits ! fst (fst slot)) \<and>
        Plane (WireID (hits ! fst (fst slot))) = q \<and> group_ok hits (Suc n) (fst slot)"
  proof
    fix slot assume slot: "slot \<in> set slots"
    note ok = plane_inv_slot [OF assms(1) slot]
    from ok(2) assms(2)
    have "identity_key (hits ! n) \<noteq> identity_key (hits ! fst (fst slot))"
      by (auto simp: identity_key_eq)
    with ok(3) have "group_ok hits (Suc n) (fst slot)"
      by (rule group_ok_Suc_other)
    with ok(1,2) show "snd slot = HitIdentifier_of (hits ! fst (fst slot)) \<and>
        Plane (WireID (hits ! fst (fst slot))) = q \<and> group_ok hits (Suc n) (fst slot)"
      by blast
  qed
  show "distinct (map (\<lambda>slot. idkey (snd slot)) slots)"
    using assms(1) by (rule plane_inv_distinct)
  show "\<forall>k<Suc n. Plane (WireID (hits ! k)) = q \<longrightarrow>
        idkey (HitIdentifier_of (hits ! k)) \<in> (\<lambda>slot. idkey (snd slot)) ` set slots"
  proof (intro allI impI)
    fix k assume k: "k < Suc n" and pk: "Plane (WireID (hits ! k)) = q"
    from k pk assms(2) have "k < n" by (cases "k = n") auto
    from plane_inv_cover [OF assms(1) this pk]
    show "idkey (HitIdentifier_of (hits ! k)) \<in> (\<lambda>slot. idkey (snd slot)) ` set slots" .
  qed
qed

lemma plane_inv_same:
  assumes inv: "plane_inv hits n p slots" and p: "Plane (WireID (hits ! n)) = p"
  shows "plane_inv hits (Suc n) p
     (case OrganizeHits_find n (HitIdentifier_of (hits ! n)) slots of
        Some found \<Rightarrow> found
      | None \<Rightarrow> slots @ [((n, []), HitIdentifier_of (hits ! n))])"
proof -
  define this where "this = HitIdentifier_of (hits ! n)"
  have slot_ok: "snd slot = HitIdentifier_of (hits ! fst (fst slot)) \<and>
      Plane (WireID (hits ! fst (fst slot))) = p \<and> group_ok hits n (fst slot)"
    if "slot \<in> set slots" for slot
    using plane_inv_slot [OF inv that] by blast
  have dist: "distinct (map (\<lambda>slot. idkey (snd slot)) slots)"
    using inv by (rule plane_inv_distinct)
  have cover: "idkey (HitIdentifier_of (hits ! k)) \<in> (\<lambda>slot. idkey (snd slot)) ` set slots"
    if "k < n" "Plane (WireID (hits ! k)) = p" for k
    using plane_inv_cover [OF inv that] .
  have key_iff: "identity_key (hits ! n) = identity_key (hits ! fst (fst slot)) \<longleftrightarrow>
      idkey this = idkey (snd slot)" if "slot \<in> set slots" for slot
    using slot_ok [OF that] p by (simp add: identity_key_eq this_def)
  have keep: "group_ok hits (Suc n) (fst slot)"
    if "slot \<in> set slots" "idkey this \<noteq> idkey (snd slot)" for slot
    using slot_ok [OF that(1)] key_iff [OF that(1)] that(2) by (intro group_ok_Suc_other) auto
  show ?thesis
  proof (cases "OrganizeHits_find n this slots")
    case None
    then have no: "\<forall>slot\<in>set slots. idkey this \<noteq> idkey (snd slot)"
      by (simp add: OrganizeHits_find_None)
    have fresh: "\<forall>k<n. identity_key (hits ! k) \<noteq> identity_key (hits ! n)"
    proof (intro allI impI notI)
      fix k assume k: "k < n" and eq: "identity_key (hits ! k) = identity_key (hits ! n)"
      from eq p have "Plane (WireID (hits ! k)) = p"
        and "idkey (HitIdentifier_of (hits ! k)) = idkey this"
        by (simp_all add: identity_key_eq this_def)
      with cover [OF k] no show False by auto
    qed
    have 1: "\<forall>slot\<in>set (slots @ [((n, []), this)]).
        snd slot = HitIdentifier_of (hits ! fst (fst slot)) \<and>
        Plane (WireID (hits ! fst (fst slot))) = p \<and> group_ok hits (Suc n) (fst slot)"
      using slot_ok keep no group_ok_new [OF fresh] p by (auto simp: this_def)
    have 2: "distinct (map (\<lambda>slot. idkey (snd slot)) (slots @ [((n, []), this)]))"
      using dist no by auto
    have 3: "\<forall>k<Suc n. Plane (WireID (hits ! k)) = p \<longrightarrow>
        idkey (HitIdentifier_of (hits ! k))
          \<in> (\<lambda>slot. idkey (snd slot)) ` set (slots @ [((n, []), this)])"
      using cover by (auto simp: less_Suc_eq this_def)
    from 1 2 3 have "plane_inv hits (Suc n) p (slots @ [((n, []), this)])"
      by (rule plane_invI)
    with None show ?thesis
      by (simp add: this_def [symmetric])
  next
    case (Some found)
    from OrganizeHits_find_Some [OF Some] obtain pre f s ident post where
      slots: "slots = pre @ ((f, s), ident) # post"
      and same: "idkey this = idkey ident"
      and found: "found = pre @ (if HitIdentifier_gt this ident then ((n, s @ [f]), this)
                    else ((f, s @ [n]), ident)) # post"
      by blast
    define new where "new = (if HitIdentifier_gt this ident then ((n, s @ [f]), this)
                    else ((f, s @ [n]), ident))"
    have found': "found = pre @ new # post"
      by (simp add: found new_def)
    have mid: "((f, s), ident) \<in> set slots"
      by (simp add: slots)
    from slot_ok [OF mid] have ident: "ident = HitIdentifier_of (hits ! f)"
      and pf: "Plane (WireID (hits ! f)) = p" and g: "group_ok hits n (f, s)"
      by simp_all
    from key_iff [OF mid] same have key: "identity_key (hits ! n) = identity_key (hits ! f)"
      by simp
    have others: "idkey this \<noteq> idkey (snd slot)" if "slot \<in> set pre \<union> set post" for slot
      using dist that same unfolding slots by auto
    have new_key: "idkey (snd new) = idkey ident"
      using same by (simp add: new_def)
    have new_ok: "snd new = HitIdentifier_of (hits ! fst (fst new)) \<and>
        Plane (WireID (hits ! fst (fst new))) = p \<and> group_ok hits (Suc n) (fst new)"
    proof (cases "HitIdentifier_gt this ident")
      case True
      then have "Integral (hits ! n) > Integral (hits ! f)"
        by (simp add: HitIdentifier_gt_def this_def ident HitIdentifier_of_def)
      from group_ok_replace [OF g key this] True p show ?thesis
        by (simp add: new_def this_def)
    next
      case False
      then have "\<not> Integral (hits ! n) > Integral (hits ! f)"
        by (simp add: HitIdentifier_gt_def this_def ident HitIdentifier_of_def)
      from group_ok_append [OF g key this] False pf ident show ?thesis
        by (simp add: new_def)
    qed
    have 1: "\<forall>slot\<in>set found.
        snd slot = HitIdentifier_of (hits ! fst (fst slot)) \<and>
        Plane (WireID (hits ! fst (fst slot))) = p \<and> group_ok hits (Suc n) (fst slot)"
    proof
      fix slot assume "slot \<in> set found"
      then consider "slot = new" | "slot \<in> set pre \<union> set post"
        by (auto simp: found')
      then show "snd slot = HitIdentifier_of (hits ! fst (fst slot)) \<and>
        Plane (WireID (hits ! fst (fst slot))) = p \<and> group_ok hits (Suc n) (fst slot)"
      proof cases
        case 1
        with new_ok show ?thesis by simp
      next
        case 2
        then have "slot \<in> set slots" by (auto simp: slots)
        from slot_ok [OF this] keep [OF this others [OF 2]] show ?thesis by simp
      qed
    qed
    have keys: "map (\<lambda>slot. idkey (snd slot)) found = map (\<lambda>slot. idkey (snd slot)) slots"
      by (simp add: found' slots new_key)
    have 2: "distinct (map (\<lambda>slot. idkey (snd slot)) found)"
      using dist by (simp only: keys)
    have keyset: "(\<lambda>slot. idkey (snd slot)) ` set found = (\<lambda>slot. idkey (snd slot)) ` set slots"
      using arg_cong [OF keys, of set] by simp
    have 3: "\<forall>k<Suc n. Plane (WireID (hits ! k)) = p \<longrightarrow>
        idkey (HitIdentifier_of (hits ! k)) \<in> (\<lambda>slot. idkey (snd slot)) ` set found"
    proof (intro allI impI)
      fix k assume k: "k < Suc n" and pk: "Plane (WireID (hits ! k)) = p"
      show "idkey (HitIdentifier_of (hits ! k)) \<in> (\<lambda>slot. idkey (snd slot)) ` set found"
      proof (cases "k = n")
        case True
        have "idkey ident \<in> (\<lambda>slot. idkey (snd slot)) ` set slots"
          using mid by force
        with same True show ?thesis
          unfolding keyset by (simp add: this_def)
      next
        case False
        with k have "k < n" by simp
        from cover [OF this pk] show ?thesis
          unfolding keyset .
      qed
    qed
    from 1 2 3 have "plane_inv hits (Suc n) p found"
      by (rule plane_invI)
    with Some show ?thesis
      by (simp add: this_def [symmetric])
  qed
qed





lemma OrganizeHits_step_inv:
  assumes inv: "OrganizeHits_inv hits n st" and p: "Plane (WireID (hits ! n)) < nplanes"
  shows "\<exists>st'. OrganizeHits_step hits n st = Inr st' \<and> OrganizeHits_inv hits (Suc n) st'"
proof -
  define p where "p = Plane (WireID (hits ! n))"
  define slots where "slots =
     (case OrganizeHits_find n (HitIdentifier_of (hits ! n)) (st ! p) of
        Some found \<Rightarrow> found
      | None \<Rightarrow> st ! p @ [((n, []), HitIdentifier_of (hits ! n))])"
  from inv have len: "length st = nplanes"
    and planes: "\<And>q. q < nplanes \<Longrightarrow> plane_inv hits n q (st ! q)"
    by (simp_all add: OrganizeHits_inv_def)
  from assms(2) have pl: "p < nplanes"
    by (simp add: p_def)
  have step: "OrganizeHits_step hits n st = Inr (st[p := slots])"
    using pl len
    by (simp add: OrganizeHits_step_def Let_def p_def [symmetric] slots_def split: option.splits)
  have "plane_inv hits (Suc n) q (st[p := slots] ! q)" if q: "q < nplanes" for q
  proof (cases "q = p")
    case True
    have "plane_inv hits (Suc n) p slots"
      unfolding slots_def using planes [OF pl] by (rule plane_inv_same) (simp add: p_def)
    with True pl len show ?thesis by simp
  next
    case False
    then have "plane_inv hits (Suc n) q (st ! q)"
      using planes [OF q] by (intro plane_inv_other) (auto simp: p_def)
    with False show ?thesis by simp
  qed
  with len have "OrganizeHits_inv hits (Suc n) (st[p := slots])"
    by (simp add: OrganizeHits_inv_def)
  with step show ?thesis by blast
qed




lemma OrganizeHits_loop_append:
  "OrganizeHits_loop hits (is @ js) st =
     (case OrganizeHits_loop hits is st of
        Inl e \<Rightarrow> Inl e
      | Inr st' \<Rightarrow> OrganizeHits_loop hits js st')"
  by (induction "is" arbitrary: st) (simp_all split: sum.splits)




lemma OrganizeHits_inv_init: "OrganizeHits_inv hits 0 (replicate nplanes [])"
  by (simp add: OrganizeHits_inv_def plane_inv_def)




lemma OrganizeHits_loop_inv:
  assumes "\<forall>k<n. Plane (WireID (hits ! k)) < nplanes"
  shows "\<exists>st. OrganizeHits_loop hits [0..<n] (replicate nplanes []) = Inr st \<and>
           OrganizeHits_inv hits n st"
  using assms
proof (induction n)
  case 0
  show ?case by (simp add: OrganizeHits_inv_init)
next
  case (Suc n)
  then obtain st where st: "OrganizeHits_loop hits [0..<n] (replicate nplanes []) = Inr st"
    and inv: "OrganizeHits_inv hits n st"
    by auto
  from Suc.prems have "Plane (WireID (hits ! n)) < nplanes" by simp
  from OrganizeHits_step_inv [OF inv this] obtain st' where
    "OrganizeHits_step hits n st = Inr st'" "OrganizeHits_inv hits (Suc n) st'"
    by blast
  with st show ?case
    by (simp add: OrganizeHits_loop_append)
qed




lemma fold_upd_lookup:
  assumes "\<forall>x\<in>set xs. \<forall>y\<in>set xs. kf x = kf y \<longrightarrow> vf x = vf y" and "x \<in> set xs"
  shows "fold (\<lambda>x m. m(kf x \<mapsto> vf x)) xs m0 (kf x) = Some (vf x)"
  using assms
proof (induction xs rule: rev_induct)
  case Nil
  then show ?case by simp
next
  case (snoc a xs)
  have sub: "set xs \<subseteq> set (xs @ [a])" and a_in: "a \<in> set (xs @ [a])"
    by auto
  show ?case
  proof (cases "kf x = kf a")
    case True
    from snoc.prems(1) snoc.prems(2) a_in True have "vf x = vf a"
      by blast
    with True show ?thesis by simp
  next
    case False
    from snoc.prems(2) False have x: "x \<in> set xs"
      by (cases "x = a") simp_all
    from snoc.prems(1) sub
    have "\<forall>x\<in>set xs. \<forall>y\<in>set xs. kf x = kf y \<longrightarrow> vf x = vf y"
      by blast
    from snoc.IH [OF this x] False show ?thesis by simp
  qed
qed



lemma fold_upd_dom:
  "dom (fold (\<lambda>x m. m(kf x \<mapsto> vf x)) xs m0) = dom m0 \<union> kf ` set xs"
  by (induction xs arbitrary: m0) auto




lemma OrganizeHits_inv_same_group:
  assumes inv: "OrganizeHits_inv hits n st"
    and p: "p < nplanes" "slot \<in> set (st ! p)"
    and q: "q < nplanes" "slot' \<in> set (st ! q)"
    and key: "identity_key (hits ! fst (fst slot)) = identity_key (hits ! fst (fst slot'))"
  shows "slot = slot'"
proof -
  from inv p(1) q(1) have ip: "plane_inv hits n p (st ! p)" and iq: "plane_inv hits n q (st ! q)"
    by (simp_all add: OrganizeHits_inv_def)
  note sp = plane_inv_slot [OF ip p(2)] and sq = plane_inv_slot [OF iq q(2)]
  from key sp(2) sq(2) have "p = q"
    by (simp add: identity_key_eq)
  from key sp(1) sq(1) have "idkey (snd slot) = idkey (snd slot')"
    by (simp add: identity_key_eq)
  moreover have "inj_on (\<lambda>slot. idkey (snd slot)) (set (st ! p))"
    using plane_inv_distinct [OF ip] by (simp add: distinct_map)
  ultimately show ?thesis
    using p(2) q(2) \<open>p = q\<close> by (auto dest: inj_onD)
qed

text \<open>
  C6. For every hit list on the planes 0 to 5, \<open>OrganizeHits\<close> returns a map, built from
  groups of hit indices such that: every hit index is in exactly one group; the members of
  a group are the indices of all hits that share the identity key (plane, wire, start
  tick, end tick) of its primary; every secondary has a smaller integral than the primary,
  or the same integral and a later position in the input, so the primary is the first hit
  of the greatest integral; the map sends the primary hit of every group to the list of
  its secondary hits, and has no other keys.
\<close>

theorem OrganizeHits_groups:
  assumes "\<forall>h\<in>set hits. Plane (WireID h) < nplanes"
  shows "\<exists>hits_org ret.
           OrganizeHits_org hits = Inr hits_org \<and> OrganizeHits hits = Inr ret \<and>
           (\<forall>k<length hits. \<exists>!g. g \<in> set hits_org \<and> k \<in> set (fst g # snd g)) \<and>
           (\<forall>g\<in>set hits_org. group_ok hits (length hits) g \<and>
              ret (hits ! fst g) = Some (map ((!) hits) (snd g))) \<and>
           dom ret = (\<lambda>g. hits ! fst g) ` set hits_org"
proof -
  define n where "n = length hits"
  from assms have "\<forall>k<n. Plane (WireID (hits ! k)) < nplanes"
    by (simp add: n_def)
  from OrganizeHits_loop_inv [OF this] obtain st where
    st: "OrganizeHits_loop hits [0..<n] (replicate nplanes []) = Inr st"
    and inv: "OrganizeHits_inv hits n st"
    by blast
  define hits_org where "hits_org = map fst (concat st)"
  define ret where "ret = fold (\<lambda>hit_org ret. ret(hits ! fst hit_org \<mapsto> map ((!) hits) (snd hit_org)))
               hits_org Map.empty"
  have org: "OrganizeHits_org hits = Inr hits_org"
    by (simp add: OrganizeHits_org_def st [unfolded n_def] hits_org_def)
  have res: "OrganizeHits hits = Inr ret"
    by (simp add: OrganizeHits_def org ret_def)
  from inv have len: "length st = nplanes"
    and planes: "\<And>p. p < nplanes \<Longrightarrow> plane_inv hits n p (st ! p)"
    by (simp_all add: OrganizeHits_inv_def)
  have mem: "g \<in> set hits_org \<longleftrightarrow> (\<exists>p<nplanes. \<exists>slot\<in>set (st ! p). g = fst slot)" for g
  proof
    assume "g \<in> set hits_org"
    then obtain slot slots where "slots \<in> set st" "slot \<in> set slots" "g = fst slot"
      unfolding hits_org_def by auto
    moreover from this(1) obtain p where "p < length st" "st ! p = slots"
      unfolding in_set_conv_nth by blast
    ultimately show "\<exists>p<nplanes. \<exists>slot\<in>set (st ! p). g = fst slot"
      using len by auto
  next
    assume "\<exists>p<nplanes. \<exists>slot\<in>set (st ! p). g = fst slot"
    then obtain p slot where p: "p < nplanes" "slot \<in> set (st ! p)" "g = fst slot"
      by blast
    from p(1) len have "st ! p \<in> set st"
      by simp
    with p(2) have "slot \<in> set (concat st)"
      by auto
    with p(3) show "g \<in> set hits_org"
      unfolding hits_org_def by simp
  qed
  have ok: "group_ok hits n g" if "g \<in> set hits_org" for g
    using that plane_inv_slot(3) [OF planes] unfolding mem by blast
  have same: "g = g'"
    if "g \<in> set hits_org" "g' \<in> set hits_org"
      "identity_key (hits ! fst g) = identity_key (hits ! fst g')" for g g'
  proof -
    from that(1) obtain p slot where p: "p < nplanes" "slot \<in> set (st ! p)" "g = fst slot"
      unfolding mem by blast
    from that(2) obtain q slot' where q: "q < nplanes" "slot' \<in> set (st ! q)" "g' = fst slot'"
      unfolding mem by blast
    from OrganizeHits_inv_same_group [OF inv p(1,2) q(1,2)] that(3) p(3) q(3)
    show ?thesis by simp
  qed
  have members: "k \<in> set (fst g # snd g) \<longleftrightarrow>
      k < n \<and> identity_key (hits ! k) = identity_key (hits ! fst g)"
    if "g \<in> set hits_org" for g k
  proof -
    from ok [OF that] have "set (fst g # snd g) =
        set (filter (\<lambda>k. identity_key (hits ! k) = identity_key (hits ! fst g)) [0..<n])"
      by (simp add: group_ok_def)
    then show ?thesis by auto
  qed
  have A: "\<exists>!g. g \<in> set hits_org \<and> k \<in> set (fst g # snd g)" if k: "k < n" for k
  proof -
    define p where "p = Plane (WireID (hits ! k))"
    from assms k have p: "p < nplanes"
      by (simp add: p_def n_def)
    from plane_inv_cover [OF planes [OF p] k] obtain slot where
      slot: "slot \<in> set (st ! p)" "idkey (HitIdentifier_of (hits ! k)) = idkey (snd slot)"
      by (auto simp: p_def)
    note s = plane_inv_slot [OF planes [OF p] slot(1)]
    have g: "fst slot \<in> set hits_org"
      unfolding mem using p slot(1) by blast
    from s(1,2) slot(2) have "identity_key (hits ! k) = identity_key (hits ! fst (fst slot))"
      by (simp add: identity_key_eq p_def)
    with members [OF g] k have in_g: "k \<in> set (fst (fst slot) # snd (fst slot))"
      by simp
    show ?thesis
    proof (rule ex1I [of _ "fst slot"])
      show "fst slot \<in> set hits_org \<and> k \<in> set (fst (fst slot) # snd (fst slot))"
        using g in_g by simp
    next
      fix g' assume g': "g' \<in> set hits_org \<and> k \<in> set (fst g' # snd g')"
      with members [of g' k] members [OF g, of k] in_g
      have "identity_key (hits ! fst g') = identity_key (hits ! fst (fst slot))"
        by simp
      with same [of g' "fst slot"] g g' show "g' = fst slot"
        by blast
    qed
  qed
  have consistent: "\<forall>g\<in>set hits_org. \<forall>g'\<in>set hits_org.
      hits ! fst g = hits ! fst g' \<longrightarrow> map ((!) hits) (snd g) = map ((!) hits) (snd g')"
    using same by (metis (no_types, lifting))
  have B: "ret (hits ! fst g) = Some (map ((!) hits) (snd g))" if "g \<in> set hits_org" for g
    unfolding ret_def
    using fold_upd_lookup [of hits_org "\<lambda>g. hits ! fst g" "\<lambda>g. map ((!) hits) (snd g)" g Map.empty,
        OF consistent that] .
  have C: "dom ret = (\<lambda>g. hits ! fst g) ` set hits_org"
    unfolding ret_def
    using fold_upd_dom [of "\<lambda>g. hits ! fst g" "\<lambda>g. map ((!) hits) (snd g)" hits_org Map.empty]
    by simp
  from org res A ok B C show ?thesis
    unfolding n_def by blast
qed


lemmas OrganizeHits_eval =
  OrganizeHits_org_def nplanes_def OrganizeHits_step_def example_hit_def HitIdentifier_of_def
  HitIdentifier_eq_def HitIdentifier_gt_def upt_rec numeral_eq_Suc

text \<open>
  Two hits on the same snippet with the integrals 5 and 10: the hit of integral 10 is
  mapped to the single secondary of integral 5.
\<close>

theorem OrganizeHits_groups_witness:
  "OrganizeHits_org [example_hit 0 2 5, example_hit 1 2 10] = Inr [(1, [0])] \<and>
   (\<exists>ret. OrganizeHits [example_hit 0 2 5, example_hit 1 2 10] = Inr ret \<and>
      ret (example_hit 1 2 10) = Some [example_hit 0 2 5] \<and> dom ret = {example_hit 1 2 10}) \<and>
   group_ok [example_hit 0 2 5, example_hit 1 2 10] 2 (1, [0])"
proof -
  have planes: "\<forall>h\<in>set [example_hit 0 2 5, example_hit 1 2 10]. Plane (WireID h) < nplanes"
    by (simp add: example_hit_def nplanes_def)
  have org: "OrganizeHits_org [example_hit 0 2 5, example_hit 1 2 10] = Inr [(1, [0])]"
    by (simp add: OrganizeHits_eval)
  from OrganizeHits_groups [OF planes] org obtain ret where
    ret: "OrganizeHits [example_hit 0 2 5, example_hit 1 2 10] = Inr ret"
    and groups: "\<forall>g\<in>set [(1::nat, [0::nat])].
       group_ok [example_hit 0 2 5, example_hit 1 2 10]
         (length [example_hit 0 2 5, example_hit 1 2 10]) g \<and>
       ret ([example_hit 0 2 5, example_hit 1 2 10] ! fst g) =
         Some (map ((!) [example_hit 0 2 5, example_hit 1 2 10]) (snd g))"
    and dom: "dom ret = (\<lambda>g. [example_hit 0 2 5, example_hit 1 2 10] ! fst g) ` set [(1::nat, [0::nat])]"
    by auto
  from groups have "ret (example_hit 1 2 10) = Some [example_hit 0 2 5]"
    and "group_ok [example_hit 0 2 5, example_hit 1 2 10] 2 (1, [0])"
    by (simp_all add: numeral_2_eq_2)
  moreover from dom have "dom ret = {example_hit 1 2 10}"
    by simp
  ultimately show ?thesis
    using org ret by blast
qed

text \<open>
  The same for any two hits with the same identity key and the integrals 5 and 10, in
  either order.
\<close>

lemma concat_replicate_Nil_update:
  "p < n \<Longrightarrow> concat ((replicate n [])[p := xs]) = xs"
proof (induction n arbitrary: p)
  case 0
  then show ?case by simp
next
  case (Suc n)
  show ?case
  proof (cases p)
    case 0
    then show ?thesis by simp
  next
    case (Suc q)
    with Suc.prems Suc.IH [of q] show ?thesis by simp
  qed
qed

lemma OrganizeHits_two_hits:
  assumes key: "identity_key h5 = identity_key h10"
    and plane: "Plane (WireID h10) < nplanes"
    and q: "Integral h5 = 5" "Integral h10 = 10"
  shows "OrganizeHits [h5, h10] = Inr [h10 \<mapsto> [h5]] \<and>
         OrganizeHits [h10, h5] = Inr [h10 \<mapsto> [h5]]"
proof -
  from key have p: "Plane (WireID h5) = Plane (WireID h10)"
    and same: "HitIdentifier_eq (HitIdentifier_of h5) (HitIdentifier_of h10)"
      "HitIdentifier_eq (HitIdentifier_of h10) (HitIdentifier_of h5)"
    by (simp_all add: identity_key_def HitIdentifier_eq_def HitIdentifier_of_def)
  from q have gt: "HitIdentifier_gt (HitIdentifier_of h10) (HitIdentifier_of h5)"
    "\<not> HitIdentifier_gt (HitIdentifier_of h5) (HitIdentifier_of h10)"
    by (simp_all add: HitIdentifier_gt_def HitIdentifier_of_def)
  have 1: "OrganizeHits_org [h5, h10] = Inr [(1, [0])]"
    using plane
    by (simp add: OrganizeHits_org_def OrganizeHits_step_def upt_rec p same gt
        concat_replicate_Nil_update)
  have 2: "OrganizeHits_org [h10, h5] = Inr [(0, [1])]"
    using plane
    by (simp add: OrganizeHits_org_def OrganizeHits_step_def upt_rec p same gt
        concat_replicate_Nil_update)
  from 1 2 show ?thesis
    by (simp add: OrganizeHits_def)
qed

section \<open>Projection and perpendicular distance\<close>

lemma Mag2_nonneg: "0 \<le> Mag2 a"
  by (simp add: Mag2_def)

lemma vec3_R_power2: "(vec3_R a)\<^sup>2 = Mag2 a"
  by (simp add: vec3_R_def Mag2_nonneg)

text \<open>
  C9. For every spacepoint, every vertex and every direction of length 1,
  \<open>SpacePointPerpendicular\<close> is not negative, and the square of \<open>SpacePointProjection\<close>
  plus the square of \<open>SpacePointPerpendicular\<close> is the square of the distance from the
  spacepoint to the vertex. The identity is exact over the real numbers.
\<close>

theorem SpacePoint_projection_perpendicular_pythagoras:
  assumes "vec3_R direction = 1"
  shows "0 \<le> SpacePointPerpendicular sp vertex direction \<and>
         (SpacePointProjection sp vertex direction)\<^sup>2 +
         (SpacePointPerpendicular sp vertex direction)\<^sup>2
           = (vec3_R (vec3_sub (position sp) vertex))\<^sup>2"
proof -
  from assms have unit: "Mag2 direction = 1"
    by (simp add: vec3_R_def)
  define pos where "pos = vec3_sub (position sp) vertex"
  define proj where "proj = Dot pos direction"
  have expand: "Mag2 (vec3_sub pos (vec3_scale proj direction)) =
      Mag2 pos - 2 * proj * Dot pos direction + proj * proj * Mag2 direction"
    by (simp add: Mag2_def vec3_sub_def vec3_scale_def Dot_def algebra_simps)
  have "Mag2 (vec3_sub pos (vec3_scale proj direction)) = Mag2 pos - proj\<^sup>2"
    unfolding expand unit by (simp add: proj_def power2_eq_square)
  then have "proj\<^sup>2 + (vec3_R (vec3_sub pos (vec3_scale proj direction)))\<^sup>2 = (vec3_R pos)\<^sup>2"
    by (simp add: vec3_R_power2)
  moreover have "0 \<le> vec3_R (vec3_sub pos (vec3_scale proj direction))"
    by (simp add: vec3_R_def Mag2_nonneg)
  ultimately show ?thesis
    by (simp add: SpacePointPerpendicular_def SpacePointPerpendicular_proj_def
        SpacePointProjection_def pos_def proj_def)
qed

text \<open>
  The spacepoint (3, 4, 0) seen from the origin along the x axis: the squares of the
  projection and of the perpendicular distance add up to 25.
\<close>

theorem SpacePoint_projection_perpendicular_pythagoras_witness:
  "vec3_R \<lparr>X = 1, Y = 0, Z = 0\<rparr> = 1 \<and>
   0 \<le> SpacePointPerpendicular (example_spacepoint 0 3 4 0)
         \<lparr>X = 0, Y = 0, Z = 0\<rparr> \<lparr>X = 1, Y = 0, Z = 0\<rparr> \<and>
   (SpacePointProjection (example_spacepoint 0 3 4 0)
      \<lparr>X = 0, Y = 0, Z = 0\<rparr> \<lparr>X = 1, Y = 0, Z = 0\<rparr>)\<^sup>2 +
   (SpacePointPerpendicular (example_spacepoint 0 3 4 0)
      \<lparr>X = 0, Y = 0, Z = 0\<rparr> \<lparr>X = 1, Y = 0, Z = 0\<rparr>)\<^sup>2 = 25"
proof -
  have u: "vec3_R \<lparr>X = 1, Y = 0, Z = 0\<rparr> = 1"
    by (simp add: vec3_R_def Mag2_def)
  have r: "(vec3_R (vec3_sub (position (example_spacepoint 0 3 4 0))
              \<lparr>X = 0, Y = 0, Z = 0\<rparr>))\<^sup>2 = 25"
    by (simp add: vec3_R_power2 Mag2_def vec3_sub_def example_spacepoint_def)
  show ?thesis
    using SpacePoint_projection_perpendicular_pythagoras
            [OF u, of "example_spacepoint 0 3 4 0" "\<lparr>X = 0, Y = 0, Z = 0\<rparr>"] u r
    by simp
qed

section \<open>Charge and time of a spacepoint\<close>

lemma fold_add_sum_list:
  "fold (\<lambda>h acc. acc + f h) hits (a::real) = a + sum_list (map f hits)"
  by (induction hits arbitrary: a) simp_all

text \<open>
  C10. For a spacepoint whose key is in the association table, \<open>SpacePointCharge\<close>
  (\<open>SpacePointTime\<close>) returns the arithmetic mean of the integrals (peak times) of its hits
  when it has at least one hit; when it has none, the quotient is 0 / 0 and the result is
  NaN. So the mean is returned only under the precondition that the spacepoint has a hit.
\<close>

theorem SpacePointCharge_Time_mean_or_NaN:
  assumes "sp_key sp < length fmh"
  shows "SpacePointCharge sp fmh =
           Inr (if fmh ! sp_key sp = [] then NaN
                else Fin (sum_list (map Integral (fmh ! sp_key sp)) /
                          real (length (fmh ! sp_key sp)))) \<and>
         SpacePointTime sp fmh =
           Inr (if fmh ! sp_key sp = [] then NaN
                else Fin (sum_list (map PeakTime (fmh ! sp_key sp)) /
                          real (length (fmh ! sp_key sp))))"
  using assms
  by (simp add: SpacePointCharge_def SpacePointTime_def fmh_at_def fold_add_sum_list)

text \<open>A spacepoint with two hits of integrals 1 and 3, and a spacepoint with no hit.\<close>

theorem SpacePointCharge_Time_mean_or_NaN_witness:
  "SpacePointCharge (example_spacepoint 0 1 2 3) [[example_hit 0 0 1, example_hit 1 1 3]]
     = Inr (Fin 2) \<and>
   SpacePointTime (example_spacepoint 0 1 2 3) [[example_hit 0 0 1, example_hit 1 1 3]]
     = Inr (Fin 0) \<and>
   SpacePointCharge (example_spacepoint 0 1 2 3) [[]] = Inr NaN \<and>
   SpacePointTime (example_spacepoint 0 1 2 3) [[]] = Inr NaN"
  using SpacePointCharge_Time_mean_or_NaN
          [of "example_spacepoint 0 1 2 3" "[[example_hit 0 0 1, example_hit 1 1 3]]"]
        SpacePointCharge_Time_mean_or_NaN [of "example_spacepoint 0 1 2 3" "[[]]"]
  by (simp add: example_spacepoint_def example_hit_def)

section \<open>The charge of a spacepoint in the charge-weighted centre\<close>

text \<open>
  The count \<open>n\<close> of the second loop does not decrease; when it ends at the value it
  started from, no hit was added to the charge. So whenever no hit passes the two
  comparisons, the charge of the spacepoint is 0 / 0.
\<close>

lemma ShowerCentre_trim_loop_count:
  "n \<le> snd (ShowerCentre_trim_loop sampling_rate ElectronLifetime mean rms hits (charge, n))"
proof (induction hits arbitrary: charge n)
  case Nil
  show ?case by simp
next
  case (Cons h hits)
  have "n + 1 \<le> snd (ShowerCentre_trim_loop sampling_rate ElectronLifetime mean rms hits
                        (charge', n + 1))" for charge'
    by (rule Cons.IH)
  then have "n \<le> snd (ShowerCentre_trim_loop sampling_rate ElectronLifetime mean rms hits
                        (charge', n + 1))" for charge'
    by (rule order_trans [rotated]) simp
  with Cons.IH [where n = n] show ?case
    by (simp add: Let_def)
qed

lemma ShowerCentre_trim_loop_none:
  "snd (ShowerCentre_trim_loop sampling_rate ElectronLifetime mean rms hits (charge, n)) = n \<Longrightarrow>
   fst (ShowerCentre_trim_loop sampling_rate ElectronLifetime mean rms hits (charge, n)) = charge"
proof (induction hits arbitrary: charge n)
  case Nil
  show ?case by simp
next
  case (Cons h hits)
  have more: "snd (ShowerCentre_trim_loop sampling_rate ElectronLifetime mean rms hits
                     (charge', n + 1)) \<noteq> n" for charge'
    using ShowerCentre_trim_loop_count
            [of "n + 1" sampling_rate ElectronLifetime mean rms hits charge']
    by simp
  from Cons.prems more Cons.IH [where n = n and charge = charge] show ?case
    by (auto simp: Let_def split: if_splits)
qed

lemma ShowerCentre_charge_no_points:
  assumes "snd (ShowerCentre_trim_loop sampling_rate ElectronLifetime
                  (ShowerCentre_mean sampling_rate ElectronLifetime hits)
                  (ShowerCentre_rms sampling_rate ElectronLifetime hits) hits (Fin 0, 0)) = 0"
  shows "ShowerCentre_charge False sampling_rate ElectronLifetime hits =
           (NaN, [''no points used to make the charge value. ''])"
proof -
  from ShowerCentre_trim_loop_none [OF assms]
  have "ShowerCentre_trim_loop sampling_rate ElectronLifetime
                  (ShowerCentre_mean sampling_rate ElectronLifetime hits)
                  (ShowerCentre_rms sampling_rate ElectronLifetime hits) hits (Fin 0, 0) = (Fin 0, 0)"
    using assms by (simp add: prod_eq_iff)
  then show ?thesis
    by (simp add: ShowerCentre_charge_def Let_def split: prod.splits)
qed

text \<open>
  Two hits of positive integral at peak time 0: the difference under the square root is
  negative, and the spread is NaN.
\<close>

lemma ShowerCentre_rms_two_positive_hits:
  assumes "ElectronLifetime \<noteq> 0" and "PeakTime h1 = 0" and "PeakTime h2 = 0"
    and "0 < Integral h1" and "0 < Integral h2"
  shows "ShowerCentre_rms sampling_rate ElectronLifetime [h1, h2] = NaN"
proof -
  have "Integral h1 * Integral h1 + Integral h2 * Integral h2
          - (Integral h1 + Integral h2) * (Integral h1 + Integral h2)
        = - (2 * (Integral h1 * Integral h2))"
    by (simp add: algebra_simps)
  moreover from assms(4,5) have "0 < Integral h1 * Integral h2"
    by simp
  ultimately have "Integral h1 * Integral h1 + Integral h2 * Integral h2
          - (Integral h1 + Integral h2) * (Integral h1 + Integral h2) < 0"
    by simp
  with assms(1-3) show ?thesis
    by (simp add: ShowerCentre_rms_def lifetimecorrection_def fsub_def)
qed

lemmas ShowerCentre_charge_defs =
  ShowerCentre_charge_def ShowerCentre_mean_def ShowerCentre_rms_def
  lifetimecorrection_def example_hit_def fsub_def fgt_def

text \<open>
  C2. The claim is that a spacepoint none of whose hits lies within two standard
  deviations of the mean has the charge zero, with a warning. The code logs the warning
  and then divides the charge 0 by the count 0. For a spacepoint with two hits of the same
  integral 5 no hit passes the two strict comparisons; the charge that \<open>ShowerCentre\<close>
  adds is NaN, the warning for a zero charge is not logged, and the total charge and the
  centre are NaN.
\<close>

theorem ShowerCentre_charge_no_points_is_NaN:
  "ShowerCentre_charge False 1 3000 [example_hit 0 2 5, example_hit 1 2 5] =
     (NaN, [''no points used to make the charge value. '']) \<and>
   ShowerCentre False 1 3000 [example_spacepoint 0 1 2 3]
     [[example_hit 0 2 5, example_hit 1 2 5]] (Fin 0) =
     Inr ((NaN, NaN, NaN), NaN, [''no points used to make the charge value. ''])"
  by (simp add: ShowerCentre_def fmh_at_def example_spacepoint_def feq_def
      ShowerCentre_charge_defs)

text \<open>
  C3. The claim is that the spread of the trim is the unbiased sample standard deviation
  of the corrected integrals. The code takes the square root of (the sum of the squares
  minus the square of the sum) over \<open>n - 1\<close>. For the integrals 1 and 3 this is the root
  of \<open>-6\<close>, NaN, and for the integrals 0 and 2 it is 0; the unbiased sample standard
  deviation of both pairs is the square root of 2.
\<close>

theorem ShowerCentre_rms_not_unbiased_deviation:
  "ShowerCentre_rms 1 3000 [example_hit 0 0 1, example_hit 1 1 3] = NaN \<and>
   spec_unbiased_standard_deviation [1, 3] = sqrt 2 \<and>
   ShowerCentre_rms 1 3000 [example_hit 0 0 0, example_hit 1 1 2] = Fin 0 \<and>
   spec_unbiased_standard_deviation [0, 2] = sqrt 2"
  by (simp add: ShowerCentre_charge_defs spec_unbiased_standard_deviation_def)

section \<open>The guards of the RMS gradient\<close>

text \<open>
  C5. \<open>RMSShowerGradient\<close> called with 0 segments throws the exception, whatever the
  spacepoints; called with a positive number of segments and fewer than 3 spacepoints it
  returns 0 and leaves the spacepoints as they are.
\<close>

theorem RMSShowerGradient_guards:
  "RMSShowerGradient sps showerCentre Direction 0 =
     Inl (CetException ''Unable to calculate RMS Shower Gradient with 0 segments'') \<and>
   (0 < nSegments \<longrightarrow> length sps < 3 \<longrightarrow>
      RMSShowerGradient sps showerCentre Direction nSegments = Inr (0, sps))"
  by (simp add: RMSShowerGradient_def)

text \<open>Two spacepoints, with 0 segments and with 4 segments.\<close>

theorem RMSShowerGradient_guards_witness:
  "RMSShowerGradient [example_spacepoint 0 3 4 0, example_spacepoint 1 1 1 1]
     \<lparr>X = 0, Y = 0, Z = 0\<rparr> \<lparr>X = 1, Y = 0, Z = 0\<rparr> 0 =
     Inl (CetException ''Unable to calculate RMS Shower Gradient with 0 segments'') \<and>
   RMSShowerGradient [example_spacepoint 0 3 4 0, example_spacepoint 1 1 1 1]
     \<lparr>X = 0, Y = 0, Z = 0\<rparr> \<lparr>X = 1, Y = 0, Z = 0\<rparr> 4 =
     Inr (0, [example_spacepoint 0 3 4 0, example_spacepoint 1 1 1 1])"
  using RMSShowerGradient_guards
          [of "[example_spacepoint 0 3 4 0, example_spacepoint 1 1 1 1]"
              "\<lparr>X = 0, Y = 0, Z = 0\<rparr>" "\<lparr>X = 1, Y = 0, Z = 0\<rparr>" 4]
  by simp

section \<open>Trimming and averaging dE/dx\<close>

text \<open>
  C1. The claim is that with the cut 10 the sequence [1,1,1,1,1] is returned unchanged and
  [1,1,1,20,21] is returned as [1,1,1]. The code appends the first three values and then
  starts its loop at index 2, so the third value is appended a second time: the results
  are [1,1,1,1,1,1] and [1,1,1,1].
\<close>

theorem FinddEdxLength_repeats_third_value:
  "FinddEdxLength 10 [1, 1, 1, 1, 1] [] = [1, 1, 1, 1, 1, 1] \<and>
   FinddEdxLength 10 [1, 1, 1, 20, 21] [] = [1, 1, 1, 1]"
  by (simp add: FinddEdxLength_def FinddEdxLength_loop.simps)

text \<open>
  The value of a plane with the mean configured: the sum of the values from 0 to 10 over
  the number of all values; and the value of an empty sequence.
\<close>

lemma CalculateElement_plane_val_mean:
  assumes "dEdx_plane \<noteq> []"
  shows "CalculateElement_plane_val False Median dEdx_plane =
           sum_list (filter (\<lambda>dEdx. \<not> (dEdx > 10 \<or> dEdx < 0)) dEdx_plane) /
           real (length dEdx_plane)"
proof -
  have "fold (\<lambda>dEdx dEdx_mean. if dEdx > 10 \<or> dEdx < 0 then dEdx_mean else dEdx_mean + dEdx) xs a
          = a + sum_list (filter (\<lambda>dEdx. \<not> (dEdx > 10 \<or> dEdx < 0)) xs)" for xs and a :: real
    by (induction xs arbitrary: a) simp_all
  with assms show ?thesis
    by (simp add: CalculateElement_plane_val_def)
qed

lemma CalculateElement_plane_val_empty:
  "CalculateElement_plane_val fUseMedian Median [] = - 999"
  by (simp add: CalculateElement_plane_val_def)


text \<open>
  C4. The claim is that with the mean configured the value of a plane is the mean of the
  trimmed sequence without the values below 0 or above 10, and \<open>-999\<close> for an empty
  sequence. The code leaves these values out of the sum and divides by the size of the
  whole sequence. With the cut off (999), the planes 0, 1, 2 and the sequences [2, 20], []
  and [3], the values are 1, \<open>-999\<close> and 3; the mean of [2, 20] without 20 is 2.
\<close>

theorem CalculateElement_mean_divides_by_full_size:
  "CalculateElement_dEdx_val 999 False Median [0, 1, 2] [(0, [2, 20]), (1, []), (2, [3])]
     = [1, - 999, 3] \<and>
   spec_mean_excluding_non_physical [2, 20] = 2"
  by (simp add: CalculateElement_dEdx_val_def CalculateElement_dEdx_vec_cut_def
      CalculateElement_plane_val_def FinddEdxLength_def spec_mean_excluding_non_physical_def)

end
